theory Spec2Isabelle
  imports
    Main
    "HOL-Library.AList"
    "HOL-Library.Char_ord"
    "HOL-Library.List_Lexorder"
    "HOL-Library.Multiset"
    "HOL-Library.Product_Lexorder"
begin

section \<open>The scanner of stale unmerged branches, embedded\<close>

text \<open>
  This theory embeds the decision logic of \<^verbatim>\<open>scan_unmerged_branches.py\<close>
  (class \<^verbatim>\<open>ScanUnmergedBranches\<close>) and proves properties of it.

  Conventions of the embedding.
  \<^item> A Python \<^verbatim>\<open>str\<close> is a \<^typ>\<open>string\<close>; a character stands for a code
    point below 256.
  \<^item> A Python \<^verbatim>\<open>dict\<close> is an association list in insertion order.
    \<^verbatim>\<open>d[k] = v\<close> is \<^const>\<open>AList.update\<close> (replace in place, or append a new
    key last), \<^verbatim>\<open>d.get(k)\<close> is \<^const>\<open>map_of\<close>, iteration over
    \<^verbatim>\<open>d.items()\<close> is iteration over the list. A real \<^verbatim>\<open>dict\<close> has pairwise
    distinct keys; theorems say so where they need it.
  \<^item> An exception is a value of type \<open>error\<close>; a function that can raise returns
    \<open>error + 'a\<close>, with \<open>Inl\<close> for the exception.
  \<^item> Effects are explicit. The wall clock is a function from the number of readings
    taken so far to the instant read, and the number of readings is threaded through
    every function that reads the clock. External commands go through a runner that
    is a parameter; the commands executed are appended to a log that is threaded
    through. Text printed to standard output is appended to a list of lines.
  \<^item> The library functions \<^verbatim>\<open>datetime.strptime\<close>, \<^verbatim>\<open>os.path.abspath\<close>,
    \<^verbatim>\<open>json.dumps\<close> and the file system are parameters of the functions
    that call them.
\<close>

subsection \<open>Exceptions\<close>

text \<open>Each constructor carries what \<^verbatim>\<open>str(exc)\<close> prints.\<close>

datatype error =
    AssertionError string
  | ValueError string
  | TypeError string
  | OSError string
  | TimeoutExpired string

fun str_of_error :: "error \<Rightarrow> string" where
  "str_of_error (AssertionError m) = m"
| "str_of_error (ValueError m) = m"
| "str_of_error (TypeError m) = m"
| "str_of_error (OSError m) = m"
| "str_of_error (TimeoutExpired m) = m"

subsection \<open>Strings\<close>

text \<open>\<^verbatim>\<open>string.whitespace\<close>: space, tab, line feed, carriage return, vertical tab,
  form feed.\<close>

definition whitespace :: string where
  "whitespace = [CHR '' '', CHR 0x09, CHR 0x0A, CHR 0x0D, CHR 0x0B, CHR 0x0C]"

text \<open>\<^verbatim>\<open>any(c in string.whitespace for c in text)\<close>\<close>

definition has_whitespace :: "string \<Rightarrow> bool" where
  "has_whitespace text = list_ex (\<lambda>c. c \<in> set whitespace) text"

text \<open>\<^verbatim>\<open>str.isspace\<close> on one character, for code points below 256: the characters
  that \<^verbatim>\<open>str.strip()\<close> removes.\<close>

definition isspace :: "char \<Rightarrow> bool" where
  "isspace c =
     (let n = (of_char c :: nat)
      in (9 \<le> n \<and> n \<le> 13) \<or> (28 \<le> n \<and> n \<le> 32) \<or> n = 133 \<or> n = 160)"

definition strip :: "string \<Rightarrow> string" where
  "strip s = rev (dropWhile isspace (rev (dropWhile isspace s)))"

definition startswith :: "string \<Rightarrow> string \<Rightarrow> bool" where
  "startswith s pre = (take (length pre) s = pre)"

text \<open>\<^verbatim>\<open>s.split(sep)\<close> for a separator of one character.\<close>

fun split :: "char \<Rightarrow> string \<Rightarrow> string list" where
  "split sep [] = [[]]"
| "split sep (c # cs) =
     (if c = sep then [] # split sep cs
      else (case split sep cs of
              [] \<Rightarrow> [[c]]
            | w # ws \<Rightarrow> (c # w) # ws))"

text \<open>\<^verbatim>\<open>sep.join(xs)\<close>\<close>

fun join :: "string \<Rightarrow> string list \<Rightarrow> string" where
  "join sep [] = []"
| "join sep [x] = x"
| "join sep (x # y # ys) = x @ sep @ join sep (y # ys)"

text \<open>\<^verbatim>\<open>'{}'.format(n)\<close> for an integer: decimal digits, a minus sign when negative.\<close>

fun str_nat :: "nat \<Rightarrow> string" where
  "str_nat n =
     (if n < 10 then [char_of (48 + n)]
      else str_nat (n div 10) @ [char_of (48 + n mod 10)])"

declare str_nat.simps [simp del]

definition str_int :: "int \<Rightarrow> string" where
  "str_int i = (if i < 0 then CHR ''-'' # str_nat (nat (- i)) else str_nat (nat i))"

text \<open>\<^verbatim>\<open>os.path.basename\<close> (POSIX): what follows the last slash.\<close>

definition basename :: "string \<Rightarrow> string" where
  "basename p = rev (takeWhile (\<lambda>c. c \<noteq> CHR ''/'') (rev p))"

subsection \<open>Time\<close>

text \<open>
  A timezone-aware \<^verbatim>\<open>datetime\<close> is identified with its instant, in microseconds
  since the epoch: the difference of two aware datetimes and their order depend on
  the instants only, whatever the offsets. \<^verbatim>\<open>DATE_FRMT\<close> ends in \<^verbatim>\<open>%z\<close>, so
  every timestamp it parses is aware, and \<^verbatim>\<open>datetime.now().astimezone()\<close> is
  aware. \<^verbatim>\<open>timedelta.days\<close> is the floor of the difference over one day.
\<close>

type_synonym datetime = int

text \<open>\<^verbatim>\<open>datetime.datetime.strptime(_, DATE_FRMT)\<close>: the instant, or the message of the
  \<^verbatim>\<open>ValueError\<close> it raises.\<close>

type_synonym parser = "string \<Rightarrow> string + datetime"

text \<open>The instant the clock shows at its \<open>k\<close>-th reading.\<close>

type_synonym clock = "nat \<Rightarrow> datetime"

definition timedelta_days :: "int \<Rightarrow> int" where
  "timedelta_days us = us div 86400000000"

definition get_datetime_now_with_tz :: "clock \<Rightarrow> nat \<Rightarrow> datetime \<times> nat" where
  "get_datetime_now_with_tz clk t = (clk t, Suc t)"

subsection \<open>Data\<close>

text \<open>
  A commit as a report holds it (keys \<^verbatim>\<open>hash\<close>, \<^verbatim>\<open>date\<close>, \<^verbatim>\<open>subject\<close>), and the
  named tuple \<^verbatim>\<open>COMMIT_DETAILS\<close>, which has the author as well.
\<close>

record commit_dict =
  hash :: string
  date :: string
  subject :: string

record COMMIT_DETAILS = commit_dict +
  author :: string

record ExecRes =
  rc :: int
  stdout :: "string list"
  stderr :: "string list"

type_synonym commits_by_author = "(string \<times> commit_dict list) list"

type_synonym report_by_branch = "(string \<times> commits_by_author) list"

text \<open>One entry of \<^verbatim>\<open>results_by_branch\<close>; \<open>kwargs\<close> is carried along and never read
  by the functions below.\<close>

record scan_result =
  branch :: string
  repo_dir :: string
  report :: report_by_branch
  kwargs :: "(string \<times> string) list"

record pipeline_results =
  scans :: "(string \<times> report_by_branch) list"
  message :: string

text \<open>What \<^verbatim>\<open>d.setdefault(k, {})\<close> and \<^verbatim>\<open>d.setdefault(k, list())\<close> return: the
  value stored under the key, or the empty default (an empty dictionary and an empty
  list are both \<open>[]\<close> here).\<close>

definition get_or_empty :: "('k \<times> 'v list) list \<Rightarrow> 'k \<Rightarrow> 'v list" where
  "get_or_empty d k = (case map_of d k of None \<Rightarrow> [] | Some v \<Rightarrow> v)"

text \<open>\<^verbatim>\<open>d[k1][k2]\<close> and \<^verbatim>\<open>d[k1][k2][k3]\<close>, \<open>None\<close> when a key is missing.\<close>

definition lookup2 :: "('a \<times> ('b \<times> 'c) list) list \<Rightarrow> 'a \<Rightarrow> 'b \<Rightarrow> 'c option" where
  "lookup2 d k1 k2 = (case map_of d k1 of None \<Rightarrow> None | Some d' \<Rightarrow> map_of d' k2)"

definition lookup3 ::
  "('a \<times> ('b \<times> ('c \<times> 'd) list) list) list \<Rightarrow> 'a \<Rightarrow> 'b \<Rightarrow> 'c \<Rightarrow> 'd option" where
  "lookup3 d k1 k2 k3 = (case map_of d k1 of None \<Rightarrow> None | Some d' \<Rightarrow> lookup2 d' k2 k3)"

subsection \<open>Guarding identifiers, running commands\<close>

text \<open>
  \<^verbatim>\<open>assert_no_whitespace(text, message)\<close>: \<^verbatim>\<open>message = message or text\<close>, then the
  assertion.
\<close>

definition assert_no_whitespace :: "string \<Rightarrow> string \<Rightarrow> error + unit" where
  "assert_no_whitespace text msg =
     (let msg' = (if msg = [] then text else msg)
      in if \<not> has_whitespace text then Inr () else Inl (AssertionError msg'))"

text \<open>
  The runner stands for \<^verbatim>\<open>Popen\<close> and \<^verbatim>\<open>communicate\<close>: given the command line and the
  working directory it yields the result, or the exception raised (a timeout).
  \<^verbatim>\<open>git_exec\<close> records the command in the log of executed commands.
\<close>

type_synonym runner = "string \<Rightarrow> string \<Rightarrow> error + ExecRes"

type_synonym cmdlog = "(string \<times> string) list"

definition git_exec :: "runner \<Rightarrow> string \<Rightarrow> string \<Rightarrow> cmdlog \<Rightarrow> (error + ExecRes) \<times> cmdlog" where
  "git_exec run cmd cwd log = (run cmd cwd, log @ [(cmd, cwd)])"

text \<open>\<^verbatim>\<open>branch = branch or self.main_branch_name\<close>\<close>

definition branch_or_main :: "string \<Rightarrow> string option \<Rightarrow> string" where
  "branch_or_main main_branch_name b =
     (case b of None \<Rightarrow> main_branch_name
      | Some b' \<Rightarrow> if b' = [] then main_branch_name else b')"

definition with_origin :: "string \<Rightarrow> string" where
  "with_origin b = (if startswith b ''origin/'' then b else ''origin/'' @ b)"

text \<open>The nested function \<^verbatim>\<open>branch_filter\<close> of \<^verbatim>\<open>get_list_of_unmerged_branches\<close>.
  \<^verbatim>\<open>include_main\<close> is a boolean here, and \<^verbatim>\<open>include_main is False\<close> is its being false.\<close>

definition branch_filter :: "string \<Rightarrow> bool \<Rightarrow> string \<Rightarrow> bool" where
  "branch_filter main_branch_name include_main b =
     (if has_whitespace b then False
      else if include_main = False \<and> b = ''origin/'' @ main_branch_name then False
      else True)"

text \<open>
  The arguments: \<^verbatim>\<open>self.main_branch_name\<close>, the two environment functions, then
  \<^verbatim>\<open>branch\<close> (\<open>None\<close> when it is not given), \<^verbatim>\<open>repo_dir\<close> and \<^verbatim>\<open>include_main\<close>, and
  the log of commands executed so far. The command runs in the absolute path of the
  repository (\<^verbatim>\<open>cwd\<close>).
\<close>

definition get_list_of_unmerged_branches ::
  "string \<Rightarrow> (string \<Rightarrow> string) \<Rightarrow> runner \<Rightarrow> string option \<Rightarrow> string \<Rightarrow> bool \<Rightarrow> cmdlog
     \<Rightarrow> (error + string list) \<times> cmdlog" where
  "get_list_of_unmerged_branches main_branch_name abspath run branch0 repo_dir0 include_main log =
     (let branch1 = branch_or_main main_branch_name branch0 in
      case assert_no_whitespace branch1 (''target_branch:'' @ branch1) of
        Inl e \<Rightarrow> (Inl e, log)
      | Inr _ \<Rightarrow>
     (case assert_no_whitespace repo_dir0 (''repo_dir:'' @ repo_dir0) of
        Inl e \<Rightarrow> (Inl e, log)
      | Inr _ \<Rightarrow>
     (let repo_dir1 = abspath repo_dir0;
          branch2 = with_origin branch1;
          cmd = ''git -P branch -r --no-merged '' @ branch2
      in case git_exec run cmd repo_dir1 log of
           (Inl e, log') \<Rightarrow> (Inl e, log')
         | (Inr res, log') \<Rightarrow>
             (let branches = map strip (stdout res)
              in (Inr (filter (branch_filter main_branch_name include_main) branches), log')))))"

text \<open>\<^verbatim>\<open>COMMIT_DETAILS(*commit.strip().split('|'))\<close>: four fields, or a
  \<^verbatim>\<open>TypeError\<close> (its message is not modelled).\<close>

definition parse_commit :: "string \<Rightarrow> error + COMMIT_DETAILS" where
  "parse_commit line =
     (case split (CHR ''|'') (strip line) of
        [h, d, a, s] \<Rightarrow> Inr \<lparr>hash = h, date = d, subject = s, author = a\<rparr>
      | _ \<Rightarrow> Inl (TypeError ''wrong number of arguments''))"

fun parse_commits :: "string list \<Rightarrow> error + COMMIT_DETAILS list" where
  "parse_commits [] = Inr []"
| "parse_commits (l # ls) =
     (case parse_commit l of
        Inl e \<Rightarrow> Inl e
      | Inr c \<Rightarrow> (case parse_commits ls of Inl e \<Rightarrow> Inl e | Inr cs \<Rightarrow> Inr (c # cs)))"

definition get_list_of_unmerged_commits ::
  "(string \<Rightarrow> string) \<Rightarrow> runner \<Rightarrow> string \<Rightarrow> string \<Rightarrow> string \<Rightarrow> cmdlog
     \<Rightarrow> (error + COMMIT_DETAILS list) \<times> cmdlog" where
  "get_list_of_unmerged_commits abspath run source_branch0 target_branch0 repo_dir0 log =
     (case assert_no_whitespace source_branch0 (''source_branch:'' @ source_branch0) of
        Inl e \<Rightarrow> (Inl e, log)
      | Inr _ \<Rightarrow>
     (case assert_no_whitespace target_branch0 (''target_branch:'' @ target_branch0) of
        Inl e \<Rightarrow> (Inl e, log)
      | Inr _ \<Rightarrow>
     (case assert_no_whitespace repo_dir0 (''repo_dir:'' @ repo_dir0) of
        Inl e \<Rightarrow> (Inl e, log)
      | Inr _ \<Rightarrow>
     (let repo_dir1 = abspath repo_dir0;
          target_branch1 = with_origin target_branch0;
          source_branch1 = with_origin source_branch0;
          cmd = ''git -P log '' @ source_branch1 @ '' --not '' @ target_branch1
                  @ '' --format='' @ [CHR 0x22] @ ''%H|%aI|%aE|%s'' @ [CHR 0x22]
      in case git_exec run cmd repo_dir1 log of
           (Inl e, log') \<Rightarrow> (Inl e, log')
         | (Inr res, log') \<Rightarrow> (parse_commits (stdout res), log')))))"

subsection \<open>Staleness\<close>

text \<open>
  \<^verbatim>\<open>raise_exceptions\<close> is \<open>False\<close> when the caller does not pass it. The clock is read in
  the \<^verbatim>\<open>else\<close> branch of the \<^verbatim>\<open>try\<close>, so only for a timestamp that parses.
\<close>

definition date_is_older_than_n_days ::
  "parser \<Rightarrow> clock \<Rightarrow> string \<Rightarrow> int \<Rightarrow> bool \<Rightarrow> nat \<Rightarrow> (error + bool) \<times> nat" where
  "date_is_older_than_n_days strptime clk d n_days raise_exceptions t =
     (case strptime d of
        Inl msg \<Rightarrow> (if raise_exceptions then (Inl (ValueError msg), t) else (Inr False, t))
      | Inr dt \<Rightarrow>
          (case get_datetime_now_with_tz clk t of
             (now, t') \<Rightarrow> (Inr (timedelta_days (now - dt) \<ge> n_days), t')))"

text \<open>
  \<^verbatim>\<open>all(self.date_is_older_than_n_days(d, stale) for d in dates)\<close>: the generator is
  consumed up to the first date that is not old.
\<close>

fun all_older :: "parser \<Rightarrow> clock \<Rightarrow> string list \<Rightarrow> int \<Rightarrow> nat \<Rightarrow> (error + bool) \<times> nat" where
  "all_older strptime clk [] stale t = (Inr True, t)"
| "all_older strptime clk (d # ds) stale t =
     (case date_is_older_than_n_days strptime clk d stale False t of
        (Inl e, t') \<Rightarrow> (Inl e, t')
      | (Inr False, t') \<Rightarrow> (Inr False, t')
      | (Inr True, t') \<Rightarrow> all_older strptime clk ds stale t')"

text \<open>The loop of \<^verbatim>\<open>extract_stale_branches\<close> over \<^verbatim>\<open>unmerged_commits_by_branch.items()\<close>,
  with the dictionary built so far.\<close>

fun extract_stale_loop ::
  "parser \<Rightarrow> clock \<Rightarrow> (string \<times> ('a commit_dict_scheme) list) list \<Rightarrow> int
     \<Rightarrow> (string \<times> ('a commit_dict_scheme) list) list \<Rightarrow> nat
     \<Rightarrow> (error + (string \<times> ('a commit_dict_scheme) list) list) \<times> nat" where
  "extract_stale_loop strptime clk [] stale acc t = (Inr acc, t)"
| "extract_stale_loop strptime clk ((b, commits) # rest) stale acc t =
     (let dates = map date commits
      in case all_older strptime clk dates stale t of
           (Inl e, t') \<Rightarrow> (Inl e, t')
         | (Inr ok, t') \<Rightarrow>
             (if \<not> ok then extract_stale_loop strptime clk rest stale acc t'
              else extract_stale_loop strptime clk rest stale (AList.update b commits acc) t'))"

definition extract_stale_branches ::
  "parser \<Rightarrow> clock \<Rightarrow> (string \<times> ('a commit_dict_scheme) list) list \<Rightarrow> int \<Rightarrow> nat
     \<Rightarrow> (error + (string \<times> ('a commit_dict_scheme) list) list) \<times> nat" where
  "extract_stale_branches strptime clk unmerged_commits_by_branch stale t =
     extract_stale_loop strptime clk unmerged_commits_by_branch stale [] t"

text \<open>
  \<^verbatim>\<open>max([strptime(commit['date'], DATE_FRMT) for commit in commits])\<close>: the list is
  built first (the first timestamp that does not parse raises), then \<^verbatim>\<open>max\<close> raises a
  \<^verbatim>\<open>ValueError\<close> on an empty list. Of equal instants \<^verbatim>\<open>max\<close> returns the first; they
  are one value here.
\<close>

fun parse_dates :: "parser \<Rightarrow> string list \<Rightarrow> error + datetime list" where
  "parse_dates strptime [] = Inr []"
| "parse_dates strptime (d # ds) =
     (case strptime d of
        Inl msg \<Rightarrow> Inl (ValueError msg)
      | Inr dt \<Rightarrow>
          (case parse_dates strptime ds of Inl e \<Rightarrow> Inl e | Inr dts \<Rightarrow> Inr (dt # dts)))"

definition extract_latest_date_from_commits :: "parser \<Rightarrow> commit_dict list \<Rightarrow> error + datetime" where
  "extract_latest_date_from_commits strptime commits =
     (case parse_dates strptime (map date commits) of
        Inl e \<Rightarrow> Inl e
      | Inr [] \<Rightarrow> Inl (ValueError ''max() arg is an empty sequence'')
      | Inr (dt # dts) \<Rightarrow> Inr (fold max dts dt))"

subsection \<open>The report by branch\<close>

text \<open>\<^verbatim>\<open>convert_commit_to_dict\<close> followed by \<^verbatim>\<open>pop('author')\<close>: the author and what is
  left of the commit.\<close>

definition convert_commit_to_dict :: "COMMIT_DETAILS \<Rightarrow> string \<times> commit_dict" where
  "convert_commit_to_dict commit =
     (author commit, \<lparr>hash = hash commit, date = date commit, subject = subject commit\<rparr>)"

text \<open>\<^verbatim>\<open>dict_by_author.setdefault(author, list()).append(commit_dict)\<close>\<close>

definition append_for_author :: "commits_by_author \<Rightarrow> COMMIT_DETAILS \<Rightarrow> commits_by_author" where
  "append_for_author dict_by_author commit =
     (case convert_commit_to_dict commit of
        (a, commit_dict) \<Rightarrow>
          AList.update a (get_or_empty dict_by_author a @ [commit_dict]) dict_by_author)"

definition convert_commits_list_to_dict_by_author :: "COMMIT_DETAILS list \<Rightarrow> commits_by_author" where
  "convert_commits_list_to_dict_by_author commits = foldl append_for_author [] commits"

definition create_report_by_branch :: "(string \<times> COMMIT_DETAILS list) list \<Rightarrow> report_by_branch" where
  "create_report_by_branch stale_branches_with_commits =
     foldl (\<lambda>report_by_branch (b, commits).
              AList.update b (convert_commits_list_to_dict_by_author commits) report_by_branch)
       [] stale_branches_with_commits"

subsection \<open>Writing a report\<close>

text \<open>
  \<^verbatim>\<open>json.dumps(data, indent=n)\<close> gives the text or raises; saving (\<^verbatim>\<open>os.makedirs\<close>,
  \<^verbatim>\<open>open\<close>, \<^verbatim>\<open>json.dump\<close>) succeeds or raises. The last argument of each function
  is what has been printed to standard output so far.
\<close>

type_synonym 'r dumper = "'r \<Rightarrow> int \<Rightarrow> error + string"

type_synonym 'r saver = "string \<Rightarrow> 'r \<Rightarrow> int \<Rightarrow> error + unit"

definition print_json_to_stdout ::
  "'r dumper \<Rightarrow> 'r \<Rightarrow> int \<Rightarrow> string list \<Rightarrow> (error + unit) \<times> string list" where
  "print_json_to_stdout dumps json_data ind out =
     (case dumps json_data ind of
        Inl e \<Rightarrow> (Inl e, out)
      | Inr txt \<Rightarrow> (Inr (), out @ [txt]))"

definition save_json_to_file ::
  "'r saver \<Rightarrow> 'r \<Rightarrow> string \<Rightarrow> int \<Rightarrow> string list \<Rightarrow> (error + unit) \<times> string list" where
  "save_json_to_file save json_data file_path ind out =
     (case save file_path json_data ind of
        Inl e \<Rightarrow> (Inl e, out)
      | Inr _ \<Rightarrow> (Inr (), out @ [''report saved to file: '' @ file_path]))"

text \<open>The keyword arguments \<^verbatim>\<open>write_report\<close> pops; \<open>None\<close> is a keyword that was not
  passed (\<open>output'\<close> is the keyword \<^verbatim>\<open>output\<close>).\<close>

record write_kwargs =
  raise_exceptions :: "bool option"
  output' :: "string option"
  indent :: "int option"

text \<open>\<^verbatim>\<open>kwargs.pop('output', None) or None\<close>: an empty path counts as none.\<close>

definition effective_output :: "write_kwargs \<Rightarrow> string option" where
  "effective_output kw =
     (case output' kw of None \<Rightarrow> None | Some p \<Rightarrow> if p = [] then None else Some p)"

text \<open>The body of the \<^verbatim>\<open>try\<close> of \<^verbatim>\<open>write_report\<close>.\<close>

definition emit_report ::
  "'r dumper \<Rightarrow> 'r saver \<Rightarrow> 'r \<Rightarrow> string option \<Rightarrow> int \<Rightarrow> string list
     \<Rightarrow> (error + unit) \<times> string list" where
  "emit_report dumps save rep outp ind out =
     (case outp of
        None \<Rightarrow> print_json_to_stdout dumps rep ind out
      | Some p \<Rightarrow> save_json_to_file save rep p ind out)"

text \<open>\<^verbatim>\<open>kwargs.pop('raise_exceptions', True)\<close> and \<^verbatim>\<open>kwargs.pop('indent', 4)\<close>\<close>

definition must_raise :: "write_kwargs \<Rightarrow> bool" where
  "must_raise kw = (case raise_exceptions kw of None \<Rightarrow> True | Some b \<Rightarrow> b)"

definition effective_indent :: "write_kwargs \<Rightarrow> int" where
  "effective_indent kw = (case indent kw of None \<Rightarrow> 4 | Some i \<Rightarrow> i)"

text \<open>
  \<^verbatim>\<open>except Exception\<close> catches every exception of type \<open>error\<close>: each of its
  constructors is a subclass of \<^verbatim>\<open>Exception\<close>.
\<close>

definition write_report ::
  "'r dumper \<Rightarrow> 'r saver \<Rightarrow> 'r \<Rightarrow> write_kwargs \<Rightarrow> string list \<Rightarrow> (error + int) \<times> string list" where
  "write_report dumps save rep kw out =
     (let raise_exc = must_raise kw;
          outp = effective_output kw;
          ind = effective_indent kw
      in case emit_report dumps save rep outp ind out of
           (Inl exc, out') \<Rightarrow>
             (let out'' = out' @ [''exception saving report: '' @ str_of_error exc]
              in if raise_exc then (Inl exc, out'') else (Inr 1, out''))
         | (Inr _, out') \<Rightarrow> (Inr 0, out'))"

subsection \<open>The pipeline report\<close>

definition scan_id :: "scan_result \<Rightarrow> string" where
  "scan_id r = ''<'' @ basename (repo_dir r) @ ''>:'' @ branch r"

definition fresh_line :: "scan_result \<Rightarrow> string" where
  "fresh_line r = '' - '' @ scan_id r @ '' *fresh*''"

definition stale_line :: "scan_result \<Rightarrow> string" where
  "stale_line r = '' - '' @ scan_id r"

definition branch_line :: "string \<Rightarrow> int \<Rightarrow> string" where
  "branch_line b staleness = ''    * '' @ b @ '' ('' @ str_int staleness @ '' days)''"

text \<open>The innermost loop, over \<^verbatim>\<open>commits_by_author.items()\<close>.\<close>

fun author_loop ::
  "parser \<Rightarrow> clock \<Rightarrow> string \<Rightarrow> commits_by_author \<Rightarrow> string list \<Rightarrow> nat
     \<Rightarrow> (error + string list) \<times> nat" where
  "author_loop strptime clk b [] message_lines t = (Inr message_lines, t)"
| "author_loop strptime clk b ((a, commits_list) # rest) message_lines t =
     (case extract_latest_date_from_commits strptime commits_list of
        Inl e \<Rightarrow> (Inl e, t)
      | Inr latest_date \<Rightarrow>
          (case get_datetime_now_with_tz clk t of
             (now, t') \<Rightarrow>
               (let staleness = timedelta_days (now - latest_date)
                in author_loop strptime clk b rest
                     (message_lines @ [branch_line b staleness]) t')))"

text \<open>The loop over \<^verbatim>\<open>result_by_branch['report'].items()\<close>.\<close>

fun branch_loop ::
  "parser \<Rightarrow> clock \<Rightarrow> report_by_branch \<Rightarrow> string list \<Rightarrow> nat \<Rightarrow> (error + string list) \<times> nat" where
  "branch_loop strptime clk [] message_lines t = (Inr message_lines, t)"
| "branch_loop strptime clk ((b, commits_by_author) # rest) message_lines t =
     (case author_loop strptime clk b commits_by_author message_lines t of
        (Inl e, t') \<Rightarrow> (Inl e, t')
      | (Inr message_lines', t') \<Rightarrow> branch_loop strptime clk rest message_lines' t')"

text \<open>The outer loop, over the sorted results, with \<^verbatim>\<open>pipeline_results['scans']\<close> and
  \<^verbatim>\<open>message_lines\<close> as built so far.\<close>

fun pipeline_loop ::
  "parser \<Rightarrow> clock \<Rightarrow> scan_result list \<Rightarrow> (string \<times> report_by_branch) list \<Rightarrow> string list \<Rightarrow> nat
     \<Rightarrow> (error + (string \<times> report_by_branch) list \<times> string list) \<times> nat" where
  "pipeline_loop strptime clk [] sc message_lines t = (Inr (sc, message_lines), t)"
| "pipeline_loop strptime clk (r # rest) sc message_lines t =
     (if report r = [] then
        pipeline_loop strptime clk rest sc (message_lines @ [fresh_line r]) t
      else
        (let sc' = AList.update (scan_id r) (report r) sc;
             message_lines' = message_lines @ [stale_line r]
         in case branch_loop strptime clk (report r) message_lines' t of
              (Inl e, t') \<Rightarrow> (Inl e, t')
            | (Inr message_lines'', t') \<Rightarrow>
                pipeline_loop strptime clk rest sc' message_lines'' t'))"

text \<open>\<^verbatim>\<open>sorted(results_by_branch, key=lambda r: (basename(r['repo_dir']), r['branch']))\<close>:
  a stable sort; strings compare by code point, pairs lexicographically.\<close>

definition sorted_results :: "scan_result list \<Rightarrow> scan_result list" where
  "sorted_results results_by_branch =
     sort_key (\<lambda>r. (basename (repo_dir r), branch r)) results_by_branch"

definition create_pipeline_report ::
  "parser \<Rightarrow> clock \<Rightarrow> scan_result list \<Rightarrow> nat \<Rightarrow> (error + pipeline_results) \<times> nat" where
  "create_pipeline_report strptime clk results_by_branch t =
     (case pipeline_loop strptime clk (sorted_results results_by_branch) [] [] t of
        (Inl e, t') \<Rightarrow> (Inl e, t')
      | (Inr (sc, message_lines), t') \<Rightarrow>
          (Inr \<lparr>scans = sc, message = join [CHR 0x0A] message_lines\<rparr>, t'))"

subsection \<open>Pivots\<close>

text \<open>The body of the loop of \<^verbatim>\<open>aggregate_scan_results_by_repo\<close>: a \<^verbatim>\<open>setdefault\<close> and
  the store under \<^verbatim>\<open>target_branch\<close> in the dictionary it returns.\<close>

definition by_repo_step ::
  "(string \<times> (string \<times> report_by_branch) list) list \<Rightarrow> scan_result
     \<Rightarrow> (string \<times> (string \<times> report_by_branch) list) list" where
  "by_repo_step results_by_repo r =
     (let repo_dict = get_or_empty results_by_repo (repo_dir r)
      in AList.update (repo_dir r) (AList.update (branch r) (report r) repo_dict) results_by_repo)"

definition aggregate_scan_results_by_repo ::
  "scan_result list \<Rightarrow> (string \<times> (string \<times> report_by_branch) list) list" where
  "aggregate_scan_results_by_repo results_by_branch = foldl by_repo_step [] results_by_branch"

type_synonym results_by_email = "(string \<times> (string \<times> (string \<times> commit_dict list) list) list) list"

text \<open>The body of the innermost loop of \<^verbatim>\<open>aggregate_scan_results_by_email\<close>: two
  \<^verbatim>\<open>setdefault\<close>s and the store under \<^verbatim>\<open>target_branch\<close>.\<close>

definition store_commits ::
  "string \<Rightarrow> string \<Rightarrow> results_by_email \<Rightarrow> string \<times> commit_dict list \<Rightarrow> results_by_email" where
  "store_commits repo target_branch results_by_email ac =
     (case ac of
        (a, commits_list) \<Rightarrow>
          (let author_dict = get_or_empty results_by_email a;
               repo_dict = get_or_empty author_dict repo
           in AList.update a
                (AList.update repo (AList.update target_branch commits_list repo_dict) author_dict)
                results_by_email))"

text \<open>What the author's entry is after a store of \<open>cs\<close> for the repository \<open>rd\<close> and the
  target branch \<open>tb\<close>, in terms of the dictionary \<open>acc\<close> before.\<close>

definition stored :: "string \<Rightarrow> string \<Rightarrow> results_by_email \<Rightarrow> string \<Rightarrow> commit_dict list
    \<Rightarrow> (string \<times> (string \<times> commit_dict list) list) list" where
  "stored rd tb acc a cs =
     AList.update rd (AList.update tb cs (get_or_empty (get_or_empty acc a) rd)) (get_or_empty acc a)"

text \<open>The two inner loops, for one entry of \<^verbatim>\<open>results_by_branch\<close>.\<close>

definition by_email_record :: "results_by_email \<Rightarrow> scan_result \<Rightarrow> results_by_email" where
  "by_email_record results_by_email r =
     foldl (\<lambda>acc bc. foldl (store_commits (repo_dir r) (branch r)) acc (snd bc))
       results_by_email (report r)"

definition aggregate_scan_results_by_email :: "scan_result list \<Rightarrow> results_by_email" where
  "aggregate_scan_results_by_email results_by_branch = foldl by_email_record [] results_by_branch"

subsection \<open>A timestamp parser\<close>

text \<open>
  Modelled from the spec: \<^verbatim>\<open>datetime.strptime\<close> is library code, not a function of
  the repository. The specification gives a commit timestamp as ISO-8601 with a UTC
  offset, \<^verbatim>\<open>2020-01-28T11:39:03+02:00\<close> being valid and \<^verbatim>\<open>2020-01-28\<close>, \<^verbatim>\<open>11:39:03\<close>
  and \<^verbatim>\<open>2020-01-28T11:39:03\<close> invalid. \<open>strptime_iso\<close> reads exactly the fixed-width
  form \<^verbatim>\<open>YYYY-MM-DDTHH:MM:SS+HH:MM\<close> (or \<^verbatim>\<open>-HH:MM\<close>) of a date that exists and gives
  its instant. The theorems below hold for every parser; this one is what they are
  evaluated with.
\<close>

definition is_digit :: "char \<Rightarrow> bool" where
  "is_digit c = (let n = (of_char c :: nat) in 48 \<le> n \<and> n \<le> 57)"

definition number :: "string \<Rightarrow> int" where
  "number s = foldl (\<lambda>n c. 10 * n + (int (of_char c) - 48)) 0 s"

definition is_leap :: "int \<Rightarrow> bool" where
  "is_leap y = (y mod 4 = 0 \<and> (y mod 100 \<noteq> 0 \<or> y mod 400 = 0))"

definition days_in_month :: "int \<Rightarrow> int \<Rightarrow> int" where
  "days_in_month y m =
     (if m = 2 then (if is_leap y then 29 else 28)
      else if m = 4 \<or> m = 6 \<or> m = 9 \<or> m = 11 then 30
      else 31)"

text \<open>Days from 1970-01-01 to the given day of the proleptic Gregorian calendar.\<close>

definition days_from_civil :: "int \<Rightarrow> int \<Rightarrow> int \<Rightarrow> int" where
  "days_from_civil y m d =
     (let y' = (if m \<le> 2 then y - 1 else y);
          era = y' div 400;
          yoe = y' - era * 400;
          mp = (m + 9) mod 12;
          doy = (153 * mp + 2) div 5 + d - 1;
          doe = yoe * 365 + yoe div 4 - yoe div 100 + doy
      in era * 146097 + doe - 719468)"

definition strptime_iso :: parser where
  "strptime_iso s =
     (if length s \<noteq> 25
         \<or> map (nth s) [4, 7, 10, 13, 16, 22] \<noteq> ''--T:::''
         \<or> (s ! 19 \<noteq> CHR ''+'' \<and> s ! 19 \<noteq> CHR ''-'')
         \<or> \<not> list_all is_digit
              (map (nth s) [0, 1, 2, 3, 5, 6, 8, 9, 11, 12, 14, 15, 17, 18, 20, 21, 23, 24])
      then Inl (''time data '' @ s @ '' does not match format %Y-%m-%dT%H:%M:%S%z'')
      else
        (let y = number (take 4 s);
             m = number (take 2 (drop 5 s));
             d = number (take 2 (drop 8 s));
             hh = number (take 2 (drop 11 s));
             mm = number (take 2 (drop 14 s));
             ss = number (take 2 (drop 17 s));
             oh = number (take 2 (drop 20 s));
             om = number (take 2 (drop 23 s));
             off = (if s ! 19 = CHR ''-'' then - 1 else 1) * (oh * 3600 + om * 60)
         in if y < 1 \<or> m < 1 \<or> 12 < m \<or> d < 1 \<or> days_in_month y m < d
               \<or> 23 < hh \<or> 59 < mm \<or> 59 < ss \<or> 59 < om \<or> 24 \<le> oh
            then Inl (''time data '' @ s @ '' is out of range'')
            else Inr ((days_from_civil y m d * 86400 + hh * 3600 + mm * 60 + ss - off) * 1000000)))"

subsection \<open>What the specification says, as definitions\<close>

text \<open>
  The definitions of this subsection follow the words of the specification, not the
  code; the theorems compare the code with them.

  A commit is old at the instant \<open>now\<close> for the window \<open>n\<close>: its timestamp parses and
  its age in whole days is at least \<open>n\<close>.
\<close>

definition commit_is_old :: "parser \<Rightarrow> datetime \<Rightarrow> int \<Rightarrow> string \<Rightarrow> bool" where
  "commit_is_old strptime now n d =
     (case strptime d of Inl _ \<Rightarrow> False | Inr dt \<Rightarrow> n \<le> timedelta_days (now - dt))"

text \<open>A branch is stale at \<open>now\<close>: all its commits are old.\<close>

definition branch_is_stale :: "parser \<Rightarrow> datetime \<Rightarrow> int \<Rightarrow> ('a commit_dict_scheme) list \<Rightarrow> bool" where
  "branch_is_stale strptime now n commits = list_all (\<lambda>c. commit_is_old strptime now n (date c)) commits"

text \<open>Two instants give every commit of a dictionary of branches the same verdict:
  each commit is old at both or at neither.\<close>

definition same_verdicts ::
  "parser \<Rightarrow> int \<Rightarrow> (string \<times> ('a commit_dict_scheme) list) list \<Rightarrow> datetime \<Rightarrow> datetime \<Rightarrow> bool" where
  "same_verdicts strptime n d now1 now2 =
     list_all (\<lambda>bc. list_all (\<lambda>c. commit_is_old strptime now1 n (date c)
                                    = commit_is_old strptime now2 n (date c)) (snd bc)) d"

text \<open>The (branch, author, commits) triples of a report, in the order of the report.\<close>

definition triples :: "report_by_branch \<Rightarrow> (string \<times> string \<times> commit_dict list) list" where
  "triples rep = concat (map (\<lambda>bc. map (\<lambda>ac. (fst bc, fst ac, snd ac)) (snd bc)) rep)"

text \<open>The instant of a timestamp that parses, and the most recent instant of a group
  of commits.\<close>

definition parses :: "parser \<Rightarrow> string \<Rightarrow> bool" where
  "parses strptime d = (case strptime d of Inl _ \<Rightarrow> False | Inr _ \<Rightarrow> True)"

definition instant :: "parser \<Rightarrow> string \<Rightarrow> datetime" where
  "instant strptime d = (case strptime d of Inl _ \<Rightarrow> 0 | Inr dt \<Rightarrow> dt)"

definition most_recent :: "parser \<Rightarrow> commit_dict list \<Rightarrow> datetime" where
  "most_recent strptime commits = Max (set (map (\<lambda>c. instant strptime (date c)) commits))"

text \<open>One sub-line per triple: it names the branch of the triple and states, in whole
  days, how long before the clock reading taken for the triple its most recent commit was
  made. The \<open>k\<close>-th triple is dated with the \<open>k\<close>-th reading of the clock.\<close>

fun sub_lines :: "parser \<Rightarrow> clock \<Rightarrow> nat \<Rightarrow> (string \<times> string \<times> commit_dict list) list \<Rightarrow> string list" where
  "sub_lines strptime clk t [] = []"
| "sub_lines strptime clk t ((b, a, commits) # rest) =
     (''    * '' @ b @ '' (''
        @ str_int (timedelta_days (clk t - most_recent strptime commits)) @ '' days)'')
       # sub_lines strptime clk (Suc t) rest"

text \<open>The lines of the message for records taken in the given order: for a record
  with an empty report one line that names it as fresh; for any other record a line
  that names it, followed by the sub-lines of its triples.\<close>

fun digest_lines :: "parser \<Rightarrow> clock \<Rightarrow> nat \<Rightarrow> scan_result list \<Rightarrow> string list" where
  "digest_lines strptime clk t [] = []"
| "digest_lines strptime clk t (r # rest) =
     (if report r = [] then
        ('' - <'' @ basename (repo_dir r) @ ''>:'' @ branch r @ '' *fresh*'')
          # digest_lines strptime clk t rest
      else
        ('' - <'' @ basename (repo_dir r) @ ''>:'' @ branch r)
          # sub_lines strptime clk t (triples (report r))
          @ digest_lines strptime clk (t + length (triples (report r))) rest)"

text \<open>A report with a latest commit in every group: every timestamp parses and no
  group of commits is empty.\<close>

definition dated :: "parser \<Rightarrow> report_by_branch \<Rightarrow> bool" where
  "dated strptime rep =
     list_all (\<lambda>tr. snd (snd tr) \<noteq> [] \<and> list_all (\<lambda>c. parses strptime (date c)) (snd (snd tr)))
       (triples rep)"

text \<open>The author's commit list under the last branch of a report that has the author.\<close>

definition last_commits :: "string \<Rightarrow> report_by_branch \<Rightarrow> commit_dict list option" where
  "last_commits a rep =
     (case filter (\<lambda>tr. fst (snd tr) = a) (triples rep) of
        [] \<Rightarrow> None
      | tr # trs \<Rightarrow> Some (snd (snd (last (tr # trs)))))"

text \<open>The post-filter of branch discovery as the specification words it: an entry
  stays when it has no whitespace and is not the integration branch (unless that is
  included).\<close>

definition integration_filter :: "string \<Rightarrow> bool \<Rightarrow> string \<Rightarrow> bool" where
  "integration_filter integration include_main b =
     (\<not> has_whitespace b \<and> (include_main \<or> b \<noteq> integration))"

text \<open>All the commits of an author in a report, over its branches in order.\<close>

definition author_commits :: "string \<Rightarrow> report_by_branch \<Rightarrow> commit_dict list" where
  "author_commits a rep =
     concat (map (\<lambda>tr. snd (snd tr)) (filter (\<lambda>tr. fst (snd tr) = a) (triples rep)))"

text \<open>The key of the digest's \<open>scans\<close> as the data model of the specification gives it:
  \<^verbatim>\<open>repoName:branch\<close>.\<close>

definition composite_key :: "scan_result \<Rightarrow> string" where
  "composite_key r = basename (repo_dir r) @ '':'' @ branch r"

subsection \<open>Sample inputs\<close>

text \<open>A commit by \<^verbatim>\<open>a@x.com\<close> with the given hash and timestamp, and such a commit as
  a report holds it; a scan result without options; a clock that advances one
  microsecond per reading; a runner that answers every command with the given lines of
  standard output.\<close>

definition commit_at :: "string \<Rightarrow> string \<Rightarrow> COMMIT_DETAILS" where
  "commit_at h d = \<lparr>hash = h, date = d, subject = ''fix bug'', author = ''a@x.com''\<rparr>"

definition cdict :: "string \<Rightarrow> string \<Rightarrow> commit_dict" where
  "cdict h d = \<lparr>hash = h, date = d, subject = ''fix bug''\<rparr>"

definition scan_of :: "string \<Rightarrow> string \<Rightarrow> report_by_branch \<Rightarrow> scan_result" where
  "scan_of rd b rep = \<lparr>branch = b, repo_dir = rd, report = rep, kwargs = []\<rparr>"

definition ticking :: "datetime \<Rightarrow> clock" where
  "ticking start k = start + int k"

text \<open>A serialiser that always gives \<^verbatim>\<open>{}\<close>, a file system that refuses every
  write, and a serialiser that always raises.\<close>

definition dumps_empty :: "report_by_branch dumper" where
  "dumps_empty rep ind = Inr ''{}''"

definition save_denied :: "report_by_branch saver" where
  "save_denied file_path rep ind = Inl (OSError ''[Errno 13] Permission denied'')"

definition dumps_failing :: "report_by_branch dumper" where
  "dumps_failing rep ind = Inl (TypeError ''Object of type set is not JSON serializable'')"

definition answering :: "string list \<Rightarrow> runner" where
  "answering out_lines cmd cwd = Inr \<lparr>rc = 0, stdout = out_lines, stderr = []\<rparr>"

section \<open>Properties\<close>

subsection \<open>The staleness filter\<close>

lemma update_fresh_append:
  "k \<notin> fst ` set al \<Longrightarrow> AList.update k v al = al @ [(k, v)]"
  by (induction al) auto

lemma date_is_older_reading:
  "date_is_older_than_n_days strptime clk d n False t =
     (Inr (commit_is_old strptime (clk t) n d), if parses strptime d then Suc t else t)"
  by (simp add: date_is_older_than_n_days_def commit_is_old_def parses_def
      get_datetime_now_with_tz_def split: sum.splits)

lemma unparsed_is_not_old: "\<not> parses strptime d \<Longrightarrow> \<not> commit_is_old strptime now n d"
  by (simp add: commit_is_old_def parses_def split: sum.splits)

lemma all_older_Cons:
  "all_older strptime clk (d # ds) n t =
     (if commit_is_old strptime (clk t) n d
      then all_older strptime clk ds n (if parses strptime d then Suc t else t)
      else (Inr False, if parses strptime d then Suc t else t))"
  by (cases "commit_is_old strptime (clk t) n d") (simp_all add: date_is_older_reading)

lemma all_older_mono: "t \<le> snd (all_older strptime clk ds n t)"
proof (induction ds arbitrary: t)
  case Nil
  then show ?case by simp
next
  case (Cons d ds)
  let ?t1 = "if parses strptime d then Suc t else t"
  have "t \<le> ?t1" by simp
  also have "?t1 \<le> snd (all_older strptime clk ds n ?t1)" by (rule Cons.IH)
  finally have "t \<le> snd (all_older strptime clk ds n ?t1)" .
  then show ?case unfolding all_older_Cons by simp
qed

lemma extract_stale_loop_Cons:
  "all_older strptime clk (map date commits) n t = (Inr ok, t') \<Longrightarrow>
     extract_stale_loop strptime clk ((b, commits) # d) n acc t =
       extract_stale_loop strptime clk d n (if ok then AList.update b commits acc else acc) t'"
  by simp

lemma extract_stale_loop_mono: "t \<le> snd (extract_stale_loop strptime clk d n acc t)"
proof (induction d arbitrary: acc t)
  case Nil
  then show ?case by simp
next
  case (Cons bc d)
  obtain b commits where bc: "bc = (b, commits)" by (cases bc)
  obtain res t' where ao: "all_older strptime clk (map date commits) n t = (res, t')"
    by (cases "all_older strptime clk (map date commits) n t")
  have t': "t \<le> t'" using all_older_mono [of t strptime clk "map date commits" n] ao by simp
  show ?case
  proof (cases res)
    case (Inl e)
    with bc ao t' show ?thesis by simp
  next
    case (Inr ok)
    let ?acc' = "if ok then AList.update b commits acc else acc"
    have "t' \<le> snd (extract_stale_loop strptime clk d n ?acc' t')" by (rule Cons.IH)
    with t' have "t \<le> snd (extract_stale_loop strptime clk d n ?acc' t')" by (rule order_trans)
    then show ?thesis
      unfolding bc extract_stale_loop_Cons [OF ao [unfolded Inr]] .
  qed
qed

text \<open>The readings of the clock that \<open>all_older\<close> takes are those from \<open>t\<close> up to the
  count it returns. When each of them gives the dates the verdict they have at \<open>now\<close>,
  the result is the verdict at \<open>now\<close>.\<close>

lemma all_older_at:
  assumes "\<forall>k. t \<le> k \<and> k < snd (all_older strptime clk ds n t) \<longrightarrow>
             (\<forall>d\<in>set ds. commit_is_old strptime (clk k) n d = commit_is_old strptime now n d)"
  shows "fst (all_older strptime clk ds n t) = Inr (list_all (commit_is_old strptime now n) ds)"
  using assms
proof (induction ds arbitrary: t)
  case Nil
  then show ?case by simp
next
  case (Cons d ds)
  let ?t1 = "if parses strptime d then Suc t else t"
  let ?v = "commit_is_old strptime (clk t) n d"
  note at = Cons.prems [rule_format]
  have verdict: "?v = commit_is_old strptime now n d"
  proof (cases "parses strptime d")
    case False
    then show ?thesis by (simp add: unparsed_is_not_old)
  next
    case True
    have "Suc t \<le> snd (all_older strptime clk ds n (Suc t))" by (rule all_older_mono)
    then have "Suc t \<le> snd (all_older strptime clk (d # ds) n t)"
      unfolding all_older_Cons using True by simp
    then have "t \<le> t \<and> t < snd (all_older strptime clk (d # ds) n t)" by simp
    then show ?thesis by (rule at) simp
  qed
  show ?case
  proof (cases ?v)
    case False
    with verdict show ?thesis unfolding all_older_Cons by simp
  next
    case True
    have whole: "all_older strptime clk (d # ds) n t = all_older strptime clk ds n ?t1"
      unfolding all_older_Cons using True by simp
    have "\<forall>k. ?t1 \<le> k \<and> k < snd (all_older strptime clk ds n ?t1) \<longrightarrow>
        (\<forall>d\<in>set ds. commit_is_old strptime (clk k) n d = commit_is_old strptime now n d)"
    proof (intro allI impI ballI)
      fix k d'
      assume k: "?t1 \<le> k \<and> k < snd (all_older strptime clk ds n ?t1)" and d': "d' \<in> set ds"
      have "t \<le> ?t1" by simp
      with k have "t \<le> k \<and> k < snd (all_older strptime clk (d # ds) n t)"
        unfolding whole by (meson order_trans)
      moreover have "d' \<in> set (d # ds)" using d' by simp
      ultimately show "commit_is_old strptime (clk k) n d' = commit_is_old strptime now n d'"
        by (rule at)
    qed
    then have "fst (all_older strptime clk ds n ?t1) =
        Inr (list_all (commit_is_old strptime now n) ds)"
      by (rule Cons.IH)
    with True verdict show ?thesis unfolding whole by simp
  qed
qed

lemma extract_stale_loop_at:
  assumes "\<forall>k. t \<le> k \<and> k < snd (extract_stale_loop strptime clk d n acc t) \<longrightarrow>
             (\<forall>bc\<in>set d. \<forall>c\<in>set (snd bc).
                commit_is_old strptime (clk k) n (date c) = commit_is_old strptime now n (date c))"
    and "distinct (map fst d)"
    and "fst ` set d \<inter> fst ` set acc = {}"
  shows "fst (extract_stale_loop strptime clk d n acc t) =
           Inr (acc @ filter (\<lambda>bc. branch_is_stale strptime now n (snd bc)) d)"
  using assms
proof (induction d arbitrary: acc t)
  case Nil
  then show ?case by simp
next
  case (Cons bc d)
  obtain b commits where bc: "bc = (b, commits)" by (cases bc)
  obtain res t' where ao: "all_older strptime clk (map date commits) n t = (res, t')"
    by (cases "all_older strptime clk (map date commits) n t")
  let ?stale = "branch_is_stale strptime now n commits"
  let ?acc' = "if ?stale then AList.update b commits acc else acc"
  have t': "t \<le> t'"
    using all_older_mono [of t strptime clk "map date commits" n] ao by simp
  have until: "t' \<le> snd (extract_stale_loop strptime clk (bc # d) n acc t)"
  proof (cases res)
    case (Inl e)
    with bc ao show ?thesis by simp
  next
    case (Inr ok)
    show ?thesis
      unfolding bc extract_stale_loop_Cons [OF ao [unfolded Inr]]
      by (rule extract_stale_loop_mono)
  qed
  have "\<forall>k. t \<le> k \<and> k < snd (all_older strptime clk (map date commits) n t) \<longrightarrow>
      (\<forall>d\<in>set (map date commits).
         commit_is_old strptime (clk k) n d = commit_is_old strptime now n d)"
  proof (intro allI impI ballI)
    fix k dt
    assume k: "t \<le> k \<and> k < snd (all_older strptime clk (map date commits) n t)"
      and dt: "dt \<in> set (map date commits)"
    from k ao until have k': "t \<le> k \<and> k < snd (extract_stale_loop strptime clk (bc # d) n acc t)"
      by simp
    from dt obtain c where c: "c \<in> set commits" and dtc: "dt = date c" by auto
    have "bc \<in> set (bc # d)" by simp
    moreover have "c \<in> set (snd bc)" using c bc by simp
    ultimately have "commit_is_old strptime (clk k) n (date c) = commit_is_old strptime now n (date c)"
      by (rule Cons.prems(1) [rule_format, OF k'])
    then show "commit_is_old strptime (clk k) n dt = commit_is_old strptime now n dt"
      unfolding dtc .
  qed
  from all_older_at [OF this] ao have res: "res = Inr ?stale"
    by (simp add: branch_is_stale_def list_all_iff)
  have whole: "extract_stale_loop strptime clk (bc # d) n acc t =
      extract_stale_loop strptime clk d n ?acc' t'"
    unfolding bc by (rule extract_stale_loop_Cons [OF ao [unfolded res]])
  have rest: "\<forall>k. t' \<le> k \<and> k < snd (extract_stale_loop strptime clk d n ?acc' t') \<longrightarrow>
      (\<forall>bc\<in>set d. \<forall>c\<in>set (snd bc).
         commit_is_old strptime (clk k) n (date c) = commit_is_old strptime now n (date c))"
  proof (intro allI impI ballI)
    fix k x c
    assume k: "t' \<le> k \<and> k < snd (extract_stale_loop strptime clk d n ?acc' t')"
      and x: "x \<in> set d" and c: "c \<in> set (snd x)"
    from k t' have k': "t \<le> k \<and> k < snd (extract_stale_loop strptime clk (bc # d) n acc t)"
      unfolding whole by (meson order_trans)
    have "x \<in> set (bc # d)" using x by simp
    then show "commit_is_old strptime (clk k) n (date c) = commit_is_old strptime now n (date c)"
      using c by (rule Cons.prems(1) [rule_format, OF k'])
  qed
  have dist: "distinct (map fst d)" using Cons.prems(2) by simp
  have disj: "fst ` set d \<inter> fst ` set ?acc' = {}"
    using Cons.prems(2,3) bc by (auto simp: AList.dom_update)
  have kept: "fst (extract_stale_loop strptime clk d n ?acc' t') =
      Inr (?acc' @ filter (\<lambda>bc. branch_is_stale strptime now n (snd bc)) d)"
    using rest dist disj by (rule Cons.IH)
  have same: "?acc' @ filter (\<lambda>bc. branch_is_stale strptime now n (snd bc)) d
      = acc @ filter (\<lambda>bc. branch_is_stale strptime now n (snd bc)) (bc # d)"
  proof (cases ?stale)
    case False
    with bc show ?thesis by simp
  next
    case True
    have "b \<notin> fst ` set acc" using Cons.prems(3) bc by auto
    then have "AList.update b commits acc = acc @ [(b, commits)]"
      by (rule update_fresh_append)
    with True bc show ?thesis by simp
  qed
  show ?case unfolding whole same [symmetric] by (rule kept)
qed

text \<open>
  Claim C1, as amended. The clock readings of a call of \<open>extract_stale_branches\<close> are
  those numbered from \<open>t\<close>, the count when it is called, up to the count it returns. For
  every dictionary from branch to commits, every window \<open>n\<close> and every instant \<open>now\<close>:
  when each reading of the call gives every commit of the dictionary the verdict, old
  or not, that it has at \<open>now\<close>, \<open>extract_stale_branches\<close> returns (it does not raise)
  exactly the branches all of whose commits are old at \<open>now\<close>, in their original order.
  A commit is old when its timestamp parses and its age in whole days is at least \<open>n\<close>.
  So a branch with no commit passes, and a branch with one commit older than \<open>n\<close> days
  and one younger is left out. The clock may move during the call; what is excluded is
  that a commit passes from not old to old between two readings.
\<close>

theorem extract_stale_branches_moving_clock:
  assumes "\<forall>k. t \<le> k \<and> k < snd (extract_stale_branches strptime clk d n t) \<longrightarrow>
             same_verdicts strptime n d (clk k) now"
    and "distinct (map fst d)"
  shows "fst (extract_stale_branches strptime clk d n t) =
           Inr (filter (\<lambda>bc. branch_is_stale strptime now n (snd bc)) d)"
proof -
  have "\<forall>k. t \<le> k \<and> k < snd (extract_stale_loop strptime clk d n [] t) \<longrightarrow>
      (\<forall>bc\<in>set d. \<forall>c\<in>set (snd bc).
         commit_is_old strptime (clk k) n (date c) = commit_is_old strptime now n (date c))"
    using assms(1) by (simp add: extract_stale_branches_def same_verdicts_def list_all_iff)
  from extract_stale_loop_at [OF this assms(2)] show ?thesis
    by (simp add: extract_stale_branches_def)
qed

text \<open>
  The instance: the clock starts at 2020-02-10 and advances with every reading; the
  window is 7 days. The call takes three readings. A branch without commits and a
  branch whose only commit is 10 days old are kept, and a branch with commits 10 and 3
  days old is left out.
\<close>

theorem extract_stale_branches_moving_clock_witness:
  "fst (extract_stale_branches strptime_iso (ticking 1581292800000000)
          [(''origin/empty'', []),
           (''origin/mixed'', [commit_at ''aaaa1111'' ''2020-01-31T00:00:00+00:00'',
                                commit_at ''bbbb2222'' ''2020-02-07T00:00:00+00:00'']),
           (''origin/old'', [commit_at ''aaaa1111'' ''2020-01-31T00:00:00+00:00''])] 7 0)
     = Inr [(''origin/empty'', []),
            (''origin/old'', [commit_at ''aaaa1111'' ''2020-01-31T00:00:00+00:00''])]"
proof -
  let ?d = "[(''origin/empty'', []),
           (''origin/mixed'', [commit_at ''aaaa1111'' ''2020-01-31T00:00:00+00:00'',
                                commit_at ''bbbb2222'' ''2020-02-07T00:00:00+00:00'']),
           (''origin/old'', [commit_at ''aaaa1111'' ''2020-01-31T00:00:00+00:00''])]"
  let ?clk = "ticking 1581292800000000"
  have readings: "snd (extract_stale_branches strptime_iso ?clk ?d 7 0) = 3"
    by code_simp
  have v0: "same_verdicts strptime_iso 7 ?d (?clk 0) 1581292800000000" by code_simp
  have v1: "same_verdicts strptime_iso 7 ?d (?clk 1) 1581292800000000" by code_simp
  have v2: "same_verdicts strptime_iso 7 ?d (?clk 2) 1581292800000000" by code_simp
  have "k < 3 \<Longrightarrow> k = 0 \<or> k = 1 \<or> k = 2" for k :: nat by arith
  with v0 v1 v2 have h: "\<forall>k. 0 \<le> k \<and> k < snd (extract_stale_branches strptime_iso ?clk ?d 7 0) \<longrightarrow>
      same_verdicts strptime_iso 7 ?d (?clk k) 1581292800000000"
    unfolding readings by blast
  have dist: "distinct (map fst ?d)" by simp
  have "fst (extract_stale_branches strptime_iso ?clk ?d 7 0)
      = Inr (filter (\<lambda>bc. branch_is_stale strptime_iso 1581292800000000 7 (snd bc)) ?d)"
    using h dist by (rule extract_stale_branches_moving_clock)
  also have "filter (\<lambda>bc. branch_is_stale strptime_iso 1581292800000000 7 (snd bc)) ?d
      = [(''origin/empty'', []),
         (''origin/old'', [commit_at ''aaaa1111'' ''2020-01-31T00:00:00+00:00''])]"
    by code_simp
  finally show ?thesis .
qed

text \<open>When the clock stands still every reading is \<open>now\<close>.\<close>

lemma extract_stale_branches_steady_clock:
  assumes "\<forall>k\<ge>t. clk k = now" and "distinct (map fst d)"
  shows "fst (extract_stale_branches strptime clk d n t) =
           Inr (filter (\<lambda>bc. branch_is_stale strptime now n (snd bc)) d)"
proof -
  have "\<forall>k. t \<le> k \<and> k < snd (extract_stale_loop strptime clk d n [] t) \<longrightarrow>
      (\<forall>bc\<in>set d. \<forall>c\<in>set (snd bc).
         commit_is_old strptime (clk k) n (date c) = commit_is_old strptime now n (date c))"
    using assms(1) by simp
  from extract_stale_loop_at [OF this assms(2)] show ?thesis
    by (simp add: extract_stale_branches_def)
qed

text \<open>
  The claim as stated speaks of one \<open>now\<close> for the whole call. The code reads the clock
  once for every timestamp that parses, so no single instant explains the result when
  the clock passes a day boundary during the call: two branches with the same single
  commit, made 2020-01-01, are scanned with the window 7 while the clock goes from one
  microsecond before 2020-01-08 to 2020-01-08. The first branch is left out and the
  second is kept.
\<close>

lemma extract_stale_branches_ticking:
  "fst (extract_stale_branches strptime_iso (ticking 1578441599999999)
          [(''origin/a'', [commit_at ''aaaa1111'' ''2020-01-01T00:00:00+00:00'']),
           (''origin/b'', [commit_at ''aaaa1111'' ''2020-01-01T00:00:00+00:00''])] 7 0)
     = Inr [(''origin/b'', [commit_at ''aaaa1111'' ''2020-01-01T00:00:00+00:00''])]"
  by code_simp

theorem extract_stale_branches_single_now_counterexample:
  "\<not> (\<exists>now. fst (extract_stale_branches strptime_iso (ticking 1578441599999999)
          [(''origin/a'', [commit_at ''aaaa1111'' ''2020-01-01T00:00:00+00:00'']),
           (''origin/b'', [commit_at ''aaaa1111'' ''2020-01-01T00:00:00+00:00''])] 7 0)
       = Inr (filter (\<lambda>bc. branch_is_stale strptime_iso now 7 (snd bc))
          [(''origin/a'', [commit_at ''aaaa1111'' ''2020-01-01T00:00:00+00:00'']),
           (''origin/b'', [commit_at ''aaaa1111'' ''2020-01-01T00:00:00+00:00''])]))"
  unfolding extract_stale_branches_ticking by (simp split: if_splits)

subsection \<open>Timestamps that do not parse\<close>

text \<open>
  Claim C3. For every timestamp that \<^verbatim>\<open>strptime\<close> rejects, whatever the window and the
  clock, \<open>date_is_older_than_n_days\<close> returns \<open>False\<close> without reading the clock when
  \<^verbatim>\<open>raise_exceptions\<close> is false (its default), and raises the parser's \<^verbatim>\<open>ValueError\<close>
  when it is true. It raises in no other case: only when \<^verbatim>\<open>raise_exceptions\<close> is true
  and the timestamp does not parse.
\<close>

theorem unparseable_date_is_not_old:
  "(strptime d = Inl msg \<longrightarrow>
      date_is_older_than_n_days strptime clk d n False t = (Inr False, t)
      \<and> date_is_older_than_n_days strptime clk d n True t = (Inl (ValueError msg), t))
   \<and> ((\<exists>e. fst (date_is_older_than_n_days strptime clk d n r t) = Inl e)
        \<longleftrightarrow> r \<and> \<not> parses strptime d)"
  by (auto simp: date_is_older_than_n_days_def parses_def get_datetime_now_with_tz_def
      split: sum.splits)

theorem unparseable_date_is_not_old_witness:
  "date_is_older_than_n_days strptime_iso (ticking 1581292800000000) ''2020-01-28T11:39:03'' 7 False 0
     = (Inr False, 0)
   \<and> date_is_older_than_n_days strptime_iso (ticking 1581292800000000) ''2020-01-28T11:39:03'' 7 True 0
     = (Inl (ValueError ''time data 2020-01-28T11:39:03 does not match format %Y-%m-%dT%H:%M:%S%z''), 0)
   \<and> date_is_older_than_n_days strptime_iso (ticking 1581292800000000) ''2020-01-28'' 0 False 0
     = (Inr False, 0)
   \<and> date_is_older_than_n_days strptime_iso (ticking 1581292800000000) ''11:39:03'' 0 False 0
     = (Inr False, 0)
   \<and> date_is_older_than_n_days strptime_iso (ticking 1581292800000000) ''2020-01-28T11:39:03+02:00'' 7 True 0
     = (Inr True, 1)"
proof -
  have p1: "strptime_iso ''2020-01-28T11:39:03''
      = Inl ''time data 2020-01-28T11:39:03 does not match format %Y-%m-%dT%H:%M:%S%z''"
    by code_simp
  have p2: "strptime_iso ''2020-01-28''
      = Inl ''time data 2020-01-28 does not match format %Y-%m-%dT%H:%M:%S%z''"
    by code_simp
  have p3: "strptime_iso ''11:39:03''
      = Inl ''time data 11:39:03 does not match format %Y-%m-%dT%H:%M:%S%z''"
    by code_simp
  have p4: "date_is_older_than_n_days strptime_iso (ticking 1581292800000000) ''2020-01-28T11:39:03+02:00'' 7 True 0
     = (Inr True, 1)"
    by code_simp
  show ?thesis
    using unparseable_date_is_not_old [of strptime_iso "''2020-01-28T11:39:03''" _ "ticking 1581292800000000" 7 0] p1
      unparseable_date_is_not_old [of strptime_iso "''2020-01-28''" _ "ticking 1581292800000000" 0 0] p2
      unparseable_date_is_not_old [of strptime_iso "''11:39:03''" _ "ticking 1581292800000000" 0 0] p3
      p4
    by simp
qed

subsection \<open>Identifiers with whitespace\<close>

lemma assert_no_whitespace_fails:
  "has_whitespace text \<Longrightarrow>
     assert_no_whitespace text msg = Inl (AssertionError (if msg = [] then text else msg))"
  by (simp add: assert_no_whitespace_def Let_def)

lemma assert_no_whitespace_passes:
  "\<not> has_whitespace text \<Longrightarrow> assert_no_whitespace text msg = Inr ()"
  by (simp add: assert_no_whitespace_def Let_def)

lemma branches_rejected:
  assumes "has_whitespace (branch_or_main mbn b) \<or> has_whitespace rd"
  shows "\<exists>m. get_list_of_unmerged_branches mbn abspath run b rd inc log = (Inl (AssertionError m), log)"
proof (cases "has_whitespace (branch_or_main mbn b)")
  case True
  then show ?thesis
    by (simp add: get_list_of_unmerged_branches_def Let_def assert_no_whitespace_fails)
next
  case False
  with assms have "has_whitespace rd" by simp
  with False show ?thesis
    by (simp add: get_list_of_unmerged_branches_def Let_def assert_no_whitespace_fails
        assert_no_whitespace_passes)
qed

lemma branches_accepted:
  assumes "\<not> has_whitespace (branch_or_main mbn b)" and "\<not> has_whitespace rd"
  shows "get_list_of_unmerged_branches mbn abspath run b rd inc log =
    (case run (''git -P branch -r --no-merged '' @ with_origin (branch_or_main mbn b)) (abspath rd) of
       Inl e \<Rightarrow> Inl e
     | Inr res \<Rightarrow> Inr (filter (branch_filter mbn inc) (map strip (stdout res))),
     log @ [(''git -P branch -r --no-merged '' @ with_origin (branch_or_main mbn b), abspath rd)])"
  using assms
  by (simp add: get_list_of_unmerged_branches_def Let_def assert_no_whitespace_passes git_exec_def
      split: sum.splits)

lemma commits_rejected:
  assumes "has_whitespace src \<or> has_whitespace tgt \<or> has_whitespace rd"
  shows "\<exists>m. get_list_of_unmerged_commits abspath run src tgt rd log = (Inl (AssertionError m), log)"
proof -
  consider (a) "has_whitespace src"
    | (b) "\<not> has_whitespace src" "has_whitespace tgt"
    | (c) "\<not> has_whitespace src" "\<not> has_whitespace tgt" "has_whitespace rd"
    using assms by blast
  then show ?thesis
  proof cases
    case a
    then show ?thesis
      by (simp add: get_list_of_unmerged_commits_def assert_no_whitespace_fails)
  next
    case b
    then show ?thesis
      by (simp add: get_list_of_unmerged_commits_def assert_no_whitespace_fails
          assert_no_whitespace_passes)
  next
    case c
    then show ?thesis
      by (simp add: get_list_of_unmerged_commits_def assert_no_whitespace_fails
          assert_no_whitespace_passes)
  qed
qed

lemma commits_accepted:
  assumes "\<not> has_whitespace src" and "\<not> has_whitespace tgt" and "\<not> has_whitespace rd"
  shows "get_list_of_unmerged_commits abspath run src tgt rd log =
    (case run (''git -P log '' @ with_origin src @ '' --not '' @ with_origin tgt
                  @ '' --format='' @ [CHR 0x22] @ ''%H|%aI|%aE|%s'' @ [CHR 0x22]) (abspath rd) of
       Inl e \<Rightarrow> Inl e
     | Inr res \<Rightarrow> parse_commits (stdout res),
     log @ [(''git -P log '' @ with_origin src @ '' --not '' @ with_origin tgt
                  @ '' --format='' @ [CHR 0x22] @ ''%H|%aI|%aE|%s'' @ [CHR 0x22], abspath rd)])"
  using assms
  by (simp add: get_list_of_unmerged_commits_def Let_def assert_no_whitespace_passes git_exec_def
      split: sum.splits)

text \<open>
  Claim C2. Whitespace is a character of \<^verbatim>\<open>string.whitespace\<close>. When the branch that
  \<open>get_list_of_unmerged_branches\<close> works on (the argument, or the main branch name when
  the argument is empty) or the repository path contains whitespace, it raises
  \<^verbatim>\<open>AssertionError\<close> and the log of executed commands is unchanged; the same holds for
  \<open>get_list_of_unmerged_commits\<close> when the source branch, the target branch or the
  repository path contains whitespace. When none of the identifiers contains whitespace
  the assertions pass: exactly one command is executed, in the absolute repository
  path.
\<close>

theorem whitespace_rejected_before_any_command:
  "(has_whitespace (branch_or_main mbn b) \<or> has_whitespace rd \<longrightarrow>
      (\<exists>m. get_list_of_unmerged_branches mbn abspath run b rd inc log
             = (Inl (AssertionError m), log)))
   \<and> (has_whitespace src \<or> has_whitespace tgt \<or> has_whitespace rd \<longrightarrow>
      (\<exists>m. get_list_of_unmerged_commits abspath run src tgt rd log
             = (Inl (AssertionError m), log)))
   \<and> (\<not> has_whitespace (branch_or_main mbn b) \<and> \<not> has_whitespace rd \<longrightarrow>
      (\<exists>cmd. snd (get_list_of_unmerged_branches mbn abspath run b rd inc log)
               = log @ [(cmd, abspath rd)]))
   \<and> (\<not> has_whitespace src \<and> \<not> has_whitespace tgt \<and> \<not> has_whitespace rd \<longrightarrow>
      (\<exists>cmd. snd (get_list_of_unmerged_commits abspath run src tgt rd log)
               = log @ [(cmd, abspath rd)]))"
  using branches_rejected [of mbn b rd abspath run inc log]
    commits_rejected [of src tgt rd abspath run log]
    branches_accepted [of mbn b rd abspath run inc log]
    commits_accepted [of src tgt rd abspath run log]
  by simp

theorem whitespace_rejected_before_any_command_witness:
  "(\<exists>m. get_list_of_unmerged_branches ''main'' id (answering []) (Some ''Bad Branch'') ''.'' False []
          = (Inl (AssertionError m), []))
   \<and> (\<exists>m. get_list_of_unmerged_commits id (answering []) ''origin/x'' ''main'' ''my repo'' []
          = (Inl (AssertionError m), []))
   \<and> (\<exists>cmd. snd (get_list_of_unmerged_branches ''main'' id (answering []) None ''.'' False [])
          = [] @ [(cmd, id ''.'')])
   \<and> (\<exists>cmd. snd (get_list_of_unmerged_commits id (answering []) ''origin/x'' ''main'' ''.'' [])
          = [] @ [(cmd, id ''.'')])"
proof -
  have h1: "has_whitespace (branch_or_main ''main'' (Some ''Bad Branch''))" by code_simp
  have h2: "has_whitespace ''my repo''" by code_simp
  have h3: "\<not> has_whitespace (branch_or_main ''main'' None)" by code_simp
  have h4: "\<not> has_whitespace ''.''" by code_simp
  have h5: "\<not> has_whitespace ''origin/x''" by code_simp
  have h6: "\<not> has_whitespace ''main''" by code_simp
  have a: "\<exists>m. get_list_of_unmerged_branches ''main'' id (answering []) (Some ''Bad Branch'') ''.'' False []
          = (Inl (AssertionError m), [])"
    using whitespace_rejected_before_any_command
        [of "''main''" "Some ''Bad Branch''" "''.''" id "answering []" False "[]" "''origin/x''" "''main''"]
      h1 by blast
  have b: "\<exists>m. get_list_of_unmerged_commits id (answering []) ''origin/x'' ''main'' ''my repo'' []
          = (Inl (AssertionError m), [])"
    using whitespace_rejected_before_any_command
        [of "''main''" None "''my repo''" id "answering []" False "[]" "''origin/x''" "''main''"]
      h2 by blast
  have c: "(\<exists>cmd. snd (get_list_of_unmerged_branches ''main'' id (answering []) None ''.'' False [])
          = [] @ [(cmd, id ''.'')])
     \<and> (\<exists>cmd. snd (get_list_of_unmerged_commits id (answering []) ''origin/x'' ''main'' ''.'' [])
          = [] @ [(cmd, id ''.'')])"
    using whitespace_rejected_before_any_command
        [of "''main''" None "''.''" id "answering []" False "[]" "''origin/x''" "''main''"]
      h3 h4 h5 h6 by blast
  from a b c show ?thesis by blast
qed

text \<open>The message of the rejection, as the test \<^verbatim>\<open>test_scan_bad_branch_raises_error\<close>
  provokes it.\<close>

lemma bad_branch_message:
  "get_list_of_unmerged_branches ''main'' id (answering []) (Some ''Bad Branch'') ''.'' False []
     = (Inl (AssertionError ''target_branch:Bad Branch''), [])"
  by code_simp

subsection \<open>The post-filter of branch discovery\<close>

text \<open>
  Claim C4, as amended. When the identifiers pass the guard and the listing command
  returns, \<open>get_list_of_unmerged_branches\<close> gives the stripped lines of its output
  without every entry that contains whitespace and, unless \<^verbatim>\<open>include_main\<close> is set,
  without the entry \<^verbatim>\<open>origin/\<close> followed by the scanner's main branch name; the other
  entries are kept in their order. The entry dropped is the main branch, whatever the
  integration branch the listing is made against.
\<close>

theorem unmerged_branches_post_filter:
  assumes "\<not> has_whitespace (branch_or_main mbn b)" and "\<not> has_whitespace rd"
    and "run (''git -P branch -r --no-merged '' @ with_origin (branch_or_main mbn b)) (abspath rd)
           = Inr res"
  shows "fst (get_list_of_unmerged_branches mbn abspath run b rd inc log) =
           Inr (filter (integration_filter (''origin/'' @ mbn) inc) (map strip (stdout res)))"
proof -
  have "branch_filter mbn inc = integration_filter (''origin/'' @ mbn) inc"
    by (auto simp: branch_filter_def integration_filter_def fun_eq_iff)
  then show ?thesis
    using assms by (simp add: branches_accepted)
qed

theorem unmerged_branches_post_filter_witness:
  "fst (get_list_of_unmerged_branches ''main'' id
          (answering [''  origin/HEAD -> origin/main'', ''  origin/feature/x'', ''  origin/main'',
                      ''  origin/bugfix/y''])
          (Some ''development'') ''.'' False [])
     = Inr [''origin/feature/x'', ''origin/bugfix/y'']"
proof -
  let ?ls = "[''  origin/HEAD -> origin/main'', ''  origin/feature/x'', ''  origin/main'',
              ''  origin/bugfix/y'']"
  let ?res = "\<lparr>rc = 0, stdout = ?ls, stderr = []\<rparr>"
  have h1: "\<not> has_whitespace (branch_or_main ''main'' (Some ''development''))" by code_simp
  have h2: "\<not> has_whitespace ''.''" by code_simp
  have h3: "answering ?ls (''git -P branch -r --no-merged ''
                @ with_origin (branch_or_main ''main'' (Some ''development''))) (id ''.'')
              = Inr ?res"
    by (simp only: answering_def)
  have "fst (get_list_of_unmerged_branches ''main'' id (answering ?ls)
          (Some ''development'') ''.'' False [])
      = Inr (filter (integration_filter (''origin/'' @ ''main'') False) (map strip (stdout ?res)))"
    by (rule unmerged_branches_post_filter
        [where mbn = "''main''" and b = "Some ''development''" and rd = "''.''" and abspath = id
           and run = "answering ?ls" and res = ?res and inc = False and log = "[]",
         OF h1 h2 h3])
  also have "filter (integration_filter (''origin/'' @ ''main'') False) (map strip (stdout ?res))
        = [''origin/feature/x'', ''origin/bugfix/y'']"
    by code_simp
  finally show ?thesis .
qed

text \<open>
  The claim as stated drops the integration branch's own name. Listing against
  \<^verbatim>\<open>development\<close> with the main branch \<^verbatim>\<open>main\<close> and without \<^verbatim>\<open>include_main\<close>, the
  code drops \<^verbatim>\<open>origin/main\<close>, an entry that is not the integration branch and has no
  whitespace; the filter of the claim would keep it.
\<close>

theorem unmerged_branches_integration_counterexample:
  "fst (get_list_of_unmerged_branches ''main'' id
          (answering [''  origin/feature/x'', ''  origin/main''])
          (Some ''development'') ''.'' False [])
     = Inr [''origin/feature/x'']
   \<and> filter (integration_filter (with_origin ''development'') False)
          (map strip [''  origin/feature/x'', ''  origin/main''])
     = [''origin/feature/x'', ''origin/main'']"
  by code_simp

subsection \<open>The pivot by repository\<close>

lemma lookup2_by_repo_step:
  "lookup2 (by_repo_step acc r) rd b =
     (if repo_dir r = rd \<and> branch r = b then Some (report r) else lookup2 acc rd b)"
  by (auto simp: lookup2_def by_repo_step_def get_or_empty_def AList.update_conv'
      split: option.splits)

lemma lookup2_foldl_by_repo:
  "lookup2 (foldl by_repo_step acc rs) rd b =
     (case map_of (rev (map (\<lambda>r. ((repo_dir r, branch r), report r)) rs)) (rd, b) of
        None \<Rightarrow> lookup2 acc rd b
      | Some v \<Rightarrow> Some v)"
proof (induction rs arbitrary: acc)
  case Nil
  then show ?case by simp
next
  case (Cons r rs)
  show ?case
    by (simp add: Cons.IH lookup2_by_repo_step map_add_def split: option.splits)
qed

text \<open>
  Claim C7. For scan results whose pairs of repository and branch are pairwise
  distinct, the pivot by repository has, at \<^verbatim>\<open>[repo_dir][branch]\<close>, the report of the
  result with that repository and branch, and it has an entry at no other pair of keys:
  reading the pivot back gives the original reports.
\<close>

theorem by_repo_round_trip:
  assumes "distinct (map (\<lambda>r. (repo_dir r, branch r)) rs)"
  shows "lookup2 (aggregate_scan_results_by_repo rs) rd b = Some rep
           \<longleftrightarrow> (\<exists>r\<in>set rs. repo_dir r = rd \<and> branch r = b \<and> report r = rep)"
proof -
  let ?kv = "map (\<lambda>r. ((repo_dir r, branch r), report r)) rs"
  have d: "distinct (map fst ?kv)" using assms by (simp add: comp_def)
  then have d': "distinct (map fst (rev ?kv))" by (simp add: rev_map [symmetric])
  have "lookup2 [] rd b = (None :: report_by_branch option)"
    by (simp add: lookup2_def)
  then have "lookup2 (aggregate_scan_results_by_repo rs) rd b = map_of (rev ?kv) (rd, b)"
    by (simp add: aggregate_scan_results_by_repo_def lookup2_foldl_by_repo split: option.splits)
  also have "\<dots> = Some rep \<longleftrightarrow> ((rd, b), rep) \<in> set (rev ?kv)"
    using d' by (rule map_of_eq_Some_iff)
  also have "\<dots> \<longleftrightarrow> (\<exists>r\<in>set rs. repo_dir r = rd \<and> branch r = b \<and> report r = rep)"
    by auto
  finally show ?thesis .
qed

theorem by_repo_round_trip_witness:
  "lookup2 (aggregate_scan_results_by_repo
      [scan_of ''/w/a'' ''main'' [(''origin/x'', [(''a@x.com'', [cdict ''aaaa1111'' ''2020-01-01T00:00:00+00:00''])])],
       scan_of ''/w/b'' ''main'' [],
       scan_of ''/w/a'' ''dev'' [(''origin/y'', [(''b@x.com'', [cdict ''bbbb2222'' ''2020-01-02T00:00:00+00:00''])])]])
     ''/w/a'' ''dev''
   = Some [(''origin/y'', [(''b@x.com'', [cdict ''bbbb2222'' ''2020-01-02T00:00:00+00:00''])])]"
proof -
  let ?r1 = "scan_of ''/w/a'' ''main'' [(''origin/x'', [(''a@x.com'', [cdict ''aaaa1111'' ''2020-01-01T00:00:00+00:00''])])]"
  let ?r2 = "scan_of ''/w/b'' ''main'' []"
  let ?rep = "[(''origin/y'', [(''b@x.com'', [cdict ''bbbb2222'' ''2020-01-02T00:00:00+00:00''])])]"
  let ?r3 = "scan_of ''/w/a'' ''dev'' ?rep"
  have d: "distinct (map (\<lambda>r. (repo_dir r, branch r)) [?r1, ?r2, ?r3])"
    by (simp add: scan_of_def)
  have "\<exists>r\<in>set [?r1, ?r2, ?r3]. repo_dir r = ''/w/a'' \<and> branch r = ''dev'' \<and> report r = ?rep"
    by (simp add: scan_of_def)
  with by_repo_round_trip [OF d, of "''/w/a''" "''dev''" ?rep] show ?thesis by (rule iffD2)
qed

subsection \<open>The pivot by author\<close>

lemma foldl_nested: "foldl (\<lambda>acc bc. foldl f acc (snd bc)) acc rep = foldl f acc (concat (map snd rep))"
  by (induction rep arbitrary: acc) auto

lemma pairs_of_triples:
  "concat (map snd rep) = map (\<lambda>tr. (fst (snd tr), snd (snd tr))) (triples rep)"
  by (induction rep) (auto simp: triples_def comp_def)

lemma get_or_empty_update [simp]: "get_or_empty (AList.update k v d) k = v"
  by (simp add: get_or_empty_def AList.update_conv')

lemma map_of_store_commits:
  "map_of (store_commits rd tb acc (a', cs)) a =
     (if a = a' then
        Some (AList.update rd (AList.update tb cs (get_or_empty (get_or_empty acc a) rd))
                (get_or_empty acc a))
      else map_of acc a)"
  by (simp add: store_commits_def Let_def AList.update_conv')

lemma map_of_foldl_store:
  "map_of (foldl (store_commits rd tb) acc acs) a =
     (case filter (\<lambda>ac. fst ac = a) acs of
        [] \<Rightarrow> map_of acc a
      | x # xs \<Rightarrow> Some (stored rd tb acc a (snd (last (x # xs)))))"
proof (induction acs rule: rev_induct)
  case Nil
  then show ?case by simp
next
  case (snoc ac acs)
  obtain a' cs where ac: "ac = (a', cs)" by (cases ac)
  show ?case
  proof (cases "a' = a")
    case False
    with snoc ac show ?thesis by (simp add: map_of_store_commits)
  next
    case True
    let ?A = "foldl (store_commits rd tb) acc acs"
    have "map_of (foldl (store_commits rd tb) acc (acs @ [ac])) a
        = Some (stored rd tb ?A a cs)"
      using True ac by (simp add: map_of_store_commits stored_def)
    moreover have "stored rd tb ?A a cs = stored rd tb acc a cs"
    proof (cases "filter (\<lambda>ac. fst ac = a) acs")
      case Nil
      with snoc.IH have "map_of ?A a = map_of acc a" by simp
      then show ?thesis by (simp add: stored_def get_or_empty_def)
    next
      case (Cons x xs)
      with snoc.IH have "map_of ?A a = Some (stored rd tb acc a (snd (last (x # xs))))"
        by simp
      then have "get_or_empty ?A a = stored rd tb acc a (snd (last (x # xs)))"
        by (simp add: get_or_empty_def)
      then show ?thesis by (simp add: stored_def)
    qed
    moreover have "filter (\<lambda>ac. fst ac = a) (acs @ [ac]) = filter (\<lambda>ac. fst ac = a) acs @ [ac]"
      using True ac by simp
    ultimately show ?thesis
      using ac by (cases "filter (\<lambda>ac. fst ac = a) acs") simp_all
  qed
qed

lemma last_commits_pairs:
  "last_commits a rep =
     (case filter (\<lambda>ac. fst ac = a) (concat (map snd rep)) of
        [] \<Rightarrow> None
      | x # xs \<Rightarrow> Some (snd (last (x # xs))))"
proof -
  let ?f = "\<lambda>tr :: string \<times> string \<times> commit_dict list. (fst (snd tr), snd (snd tr))"
  have "filter (\<lambda>ac. fst ac = a) (concat (map snd rep))
      = map ?f (filter (\<lambda>tr. fst (snd tr) = a) (triples rep))"
    by (simp add: pairs_of_triples filter_map comp_def)
  then show ?thesis
    by (cases "filter (\<lambda>tr. fst (snd tr) = a) (triples rep)")
      (simp_all add: last_commits_def last_map)
qed

lemma map_of_by_email_record:
  "map_of (by_email_record acc r) a =
     (case last_commits a (report r) of
        None \<Rightarrow> map_of acc a
      | Some cs \<Rightarrow> Some (stored (repo_dir r) (branch r) acc a cs))"
  by (simp add: by_email_record_def foldl_nested map_of_foldl_store last_commits_pairs
      split: list.splits)

lemma distinct_store_commits:
  "distinct (map fst acc) \<Longrightarrow> distinct (map fst (store_commits rd tb acc ac))"
  by (cases ac) (simp add: store_commits_def Let_def AList.distinct_update)

lemma distinct_foldl_store:
  "distinct (map fst acc) \<Longrightarrow> distinct (map fst (foldl (store_commits rd tb) acc acs))"
  by (induction acs arbitrary: acc) (simp_all add: distinct_store_commits)

lemma distinct_by_email_record:
  "distinct (map fst acc) \<Longrightarrow> distinct (map fst (by_email_record acc r))"
  by (simp add: by_email_record_def foldl_nested distinct_foldl_store)

lemma distinct_by_email: "distinct (map fst (aggregate_scan_results_by_email rs))"
proof -
  have "distinct (map fst acc) \<Longrightarrow> distinct (map fst (foldl by_email_record acc rs))" for acc
    by (induction rs arbitrary: acc) (simp_all add: distinct_by_email_record)
  then show ?thesis by (simp add: aggregate_scan_results_by_email_def)
qed

lemma single_entry:
  "distinct (map fst xs) \<Longrightarrow> map_of xs k = Some v \<Longrightarrow> filter (\<lambda>e. fst e = k) xs = [(k, v)]"
proof (induction xs)
  case Nil
  then show ?case by simp
next
  case (Cons x xs)
  show ?case
  proof (cases "fst x = k")
    case True
    with Cons.prems have "x = (k, v)" by (cases x) simp
    moreover have "k \<notin> fst ` set xs"
      using Cons.prems(1) True by auto
    then have "filter (\<lambda>e. fst e = k) xs = []"
      by (induction xs) auto
    ultimately show ?thesis by simp
  next
    case False
    with Cons show ?thesis by (cases x) auto
  qed
qed

lemma by_email_two_records:
  assumes "repo_dir r1 \<noteq> repo_dir r2"
    and "last_commits a (report r1) = Some cs1"
    and "last_commits a (report r2) = Some cs2"
  shows "map_of (aggregate_scan_results_by_email [r1, r2]) a =
           Some [(repo_dir r1, [(branch r1, cs1)]), (repo_dir r2, [(branch r2, cs2)])]"
proof -
  let ?acc = "by_email_record [] r1"
  have 1: "map_of ?acc a = Some [(repo_dir r1, [(branch r1, cs1)])]"
    using assms(2) by (simp add: map_of_by_email_record stored_def get_or_empty_def)
  have "map_of (by_email_record ?acc r2) a = Some (stored (repo_dir r2) (branch r2) ?acc a cs2)"
    using assms(3) by (simp add: map_of_by_email_record)
  also have "stored (repo_dir r2) (branch r2) ?acc a cs2
      = [(repo_dir r1, [(branch r1, cs1)]), (repo_dir r2, [(branch r2, cs2)])]"
    using 1 assms(1) by (simp add: stored_def get_or_empty_def)
  finally show ?thesis by (simp add: aggregate_scan_results_by_email_def)
qed

lemma one_branch_for_author:
  assumes "length (filter (\<lambda>tr. fst (snd tr) = a) (triples rep)) = 1"
  shows "last_commits a rep = Some (author_commits a rep)"
proof -
  from assms obtain tr where "filter (\<lambda>tr. fst (snd tr) = a) (triples rep) = [tr]"
    by (cases "filter (\<lambda>tr. fst (snd tr) = a) (triples rep)") auto
  then show ?thesis by (simp add: last_commits_def author_commits_def)
qed

text \<open>
  Claim C8, as amended. Given two scan results with different repositories, in each
  of which exactly one stale branch has commits by the author: the pivot by author has
  a single entry for the author, with the two repositories as its keys in the order of
  the results, each holding, under the integration branch of its result, the author's
  commits of that result.
\<close>

theorem by_email_groups_across_repos:
  assumes "repo_dir r1 \<noteq> repo_dir r2"
    and "length (filter (\<lambda>tr. fst (snd tr) = a) (triples (report r1))) = 1"
    and "length (filter (\<lambda>tr. fst (snd tr) = a) (triples (report r2))) = 1"
  shows "filter (\<lambda>e. fst e = a) (aggregate_scan_results_by_email [r1, r2]) =
           [(a, [(repo_dir r1, [(branch r1, author_commits a (report r1))]),
                 (repo_dir r2, [(branch r2, author_commits a (report r2))])])]"
  using by_email_two_records [OF assms(1) one_branch_for_author [OF assms(2)]
      one_branch_for_author [OF assms(3)]]
  by (rule single_entry [OF distinct_by_email])

theorem by_email_groups_across_repos_witness:
  "filter (\<lambda>e. fst e = ''a@x.com'')
     (aggregate_scan_results_by_email
        [scan_of ''/w/a'' ''main''
           [(''origin/x'', [(''a@x.com'', [cdict ''aaaa1111'' ''2020-01-01T00:00:00+00:00''])])],
         scan_of ''/w/b'' ''dev''
           [(''origin/z'', [(''b@x.com'', [cdict ''bbbb2222'' ''2020-01-02T00:00:00+00:00'']),
                            (''a@x.com'', [cdict ''cccc3333'' ''2020-01-03T00:00:00+00:00''])])]])
   = [(''a@x.com'',
        [(''/w/a'', [(''main'', [cdict ''aaaa1111'' ''2020-01-01T00:00:00+00:00''])]),
         (''/w/b'', [(''dev'', [cdict ''cccc3333'' ''2020-01-03T00:00:00+00:00''])])])]"
proof -
  let ?r1 = "scan_of ''/w/a'' ''main''
           [(''origin/x'', [(''a@x.com'', [cdict ''aaaa1111'' ''2020-01-01T00:00:00+00:00''])])]"
  let ?r2 = "scan_of ''/w/b'' ''dev''
           [(''origin/z'', [(''b@x.com'', [cdict ''bbbb2222'' ''2020-01-02T00:00:00+00:00'']),
                            (''a@x.com'', [cdict ''cccc3333'' ''2020-01-03T00:00:00+00:00''])])]"
  have h1: "repo_dir ?r1 \<noteq> repo_dir ?r2" by (simp add: scan_of_def)
  have h2: "length (filter (\<lambda>tr. fst (snd tr) = ''a@x.com'') (triples (report ?r1))) = 1"
    by (simp add: scan_of_def triples_def)
  have h3: "length (filter (\<lambda>tr. fst (snd tr) = ''a@x.com'') (triples (report ?r2))) = 1"
    by (simp add: scan_of_def triples_def)
  have e1: "author_commits ''a@x.com'' (report ?r1) = [cdict ''aaaa1111'' ''2020-01-01T00:00:00+00:00'']"
    by (simp add: scan_of_def triples_def author_commits_def)
  have e2: "author_commits ''a@x.com'' (report ?r2) = [cdict ''cccc3333'' ''2020-01-03T00:00:00+00:00'']"
    by (simp add: scan_of_def triples_def author_commits_def)
  have e3: "repo_dir ?r1 = ''/w/a''" "repo_dir ?r2 = ''/w/b''" "branch ?r1 = ''main''"
    "branch ?r2 = ''dev''"
    by (simp_all add: scan_of_def)
  show ?thesis
    using by_email_groups_across_repos [OF h1 h2 h3] unfolding e1 e2 e3 .
qed

text \<open>
  The claim as stated has each repository key hold the author's commits of its
  result. When the author has commits under two stale branches of the first result,
  the commit under the first of them is nowhere in the pivot.
\<close>

theorem by_email_two_branches_counterexample:
  "aggregate_scan_results_by_email
     [scan_of ''/w/a'' ''main''
        [(''origin/x'', [(''a@x.com'', [cdict ''aaaa1111'' ''2020-01-01T00:00:00+00:00''])]),
         (''origin/y'', [(''a@x.com'', [cdict ''bbbb2222'' ''2020-01-02T00:00:00+00:00''])])],
      scan_of ''/w/b'' ''main''
        [(''origin/z'', [(''a@x.com'', [cdict ''cccc3333'' ''2020-01-03T00:00:00+00:00''])])]]
   = [(''a@x.com'',
        [(''/w/a'', [(''main'', [cdict ''bbbb2222'' ''2020-01-02T00:00:00+00:00''])]),
         (''/w/b'', [(''main'', [cdict ''cccc3333'' ''2020-01-03T00:00:00+00:00''])])])]
   \<and> author_commits ''a@x.com''
        (report (scan_of ''/w/a'' ''main''
          [(''origin/x'', [(''a@x.com'', [cdict ''aaaa1111'' ''2020-01-01T00:00:00+00:00''])]),
           (''origin/y'', [(''a@x.com'', [cdict ''bbbb2222'' ''2020-01-02T00:00:00+00:00''])])]))
     = [cdict ''aaaa1111'' ''2020-01-01T00:00:00+00:00'',
        cdict ''bbbb2222'' ''2020-01-02T00:00:00+00:00'']"
  by code_simp

text \<open>
  Claim C9. In the pivot by author the innermost dictionary is keyed by the
  integration branch of the scan result, not by the stale branch of the report. For a
  single scan result, the author's entry is one repository with one key, the
  integration branch, and holds the commit list of the last branch of the report (in
  its order) under which the author has commits; the lists of earlier branches are
  overwritten. After any earlier results the same list stands at
  \<^verbatim>\<open>[author][repo_dir][branch]\<close>.
\<close>

theorem by_email_keeps_last_branch:
  "map_of (aggregate_scan_results_by_email [r]) a =
     (case last_commits a (report r) of
        None \<Rightarrow> None
      | Some cs \<Rightarrow> Some [(repo_dir r, [(branch r, cs)])])
   \<and> lookup3 (aggregate_scan_results_by_email (pre @ [r])) a (repo_dir r) (branch r) =
     (case last_commits a (report r) of
        None \<Rightarrow> lookup3 (aggregate_scan_results_by_email pre) a (repo_dir r) (branch r)
      | Some cs \<Rightarrow> Some cs)"
proof
  show "map_of (aggregate_scan_results_by_email [r]) a =
     (case last_commits a (report r) of
        None \<Rightarrow> None
      | Some cs \<Rightarrow> Some [(repo_dir r, [(branch r, cs)])])"
    by (simp add: aggregate_scan_results_by_email_def map_of_by_email_record stored_def
        get_or_empty_def split: option.splits)
next
  let ?acc = "aggregate_scan_results_by_email pre"
  have "aggregate_scan_results_by_email (pre @ [r]) = by_email_record ?acc r"
    by (simp add: aggregate_scan_results_by_email_def)
  then show "lookup3 (aggregate_scan_results_by_email (pre @ [r])) a (repo_dir r) (branch r) =
     (case last_commits a (report r) of
        None \<Rightarrow> lookup3 ?acc a (repo_dir r) (branch r)
      | Some cs \<Rightarrow> Some cs)"
    by (simp add: lookup3_def lookup2_def map_of_by_email_record stored_def AList.update_conv'
        split: option.splits)
qed

theorem by_email_keeps_last_branch_witness:
  "map_of (aggregate_scan_results_by_email
      [scan_of ''/w/a'' ''main''
        [(''origin/x'', [(''a@x.com'', [cdict ''aaaa1111'' ''2020-01-01T00:00:00+00:00''])]),
         (''origin/y'', [(''a@x.com'', [cdict ''bbbb2222'' ''2020-01-02T00:00:00+00:00''])])]])
     ''a@x.com''
   = Some [(''/w/a'', [(''main'', [cdict ''bbbb2222'' ''2020-01-02T00:00:00+00:00''])])]"
proof -
  let ?rep = "[(''origin/x'', [(''a@x.com'', [cdict ''aaaa1111'' ''2020-01-01T00:00:00+00:00''])]),
         (''origin/y'', [(''a@x.com'', [cdict ''bbbb2222'' ''2020-01-02T00:00:00+00:00''])])]"
  have l: "last_commits ''a@x.com'' (report (scan_of ''/w/a'' ''main'' ?rep))
      = Some [cdict ''bbbb2222'' ''2020-01-02T00:00:00+00:00'']"
    by (simp add: scan_of_def last_commits_def triples_def)
  have e: "repo_dir (scan_of ''/w/a'' ''main'' ?rep) = ''/w/a''"
    "branch (scan_of ''/w/a'' ''main'' ?rep) = ''main''"
    by (simp_all add: scan_of_def)
  show ?thesis
    using by_email_keeps_last_branch [of "scan_of ''/w/a'' ''main'' ?rep" "''a@x.com''" "[]",
        THEN conjunct1]
    unfolding l e by simp
qed

subsection \<open>Writing a report\<close>

lemma emit_report_stdout:
  "emit_report dumps save rep None ind out =
     (case dumps rep ind of Inl e \<Rightarrow> (Inl e, out) | Inr txt \<Rightarrow> (Inr (), out @ [txt]))"
  by (simp add: emit_report_def print_json_to_stdout_def)

lemma emit_report_file:
  "emit_report dumps save rep (Some p) ind out =
     (case save p rep ind of
        Inl e \<Rightarrow> (Inl e, out)
      | Inr u \<Rightarrow> (Inr (), out @ [''report saved to file: '' @ p]))"
  by (simp add: emit_report_def save_json_to_file_def)

lemma effective_output_None:
  "effective_output kw = None \<longleftrightarrow> output' kw = None \<or> output' kw = Some []"
  by (simp add: effective_output_def split: option.splits)

lemma effective_output_Some:
  "effective_output kw = Some p \<longleftrightarrow> output' kw = Some p \<and> p \<noteq> []"
  by (auto simp: effective_output_def split: option.splits)

lemma write_report_to_stdout:
  assumes "output' kw = None \<or> output' kw = Some []"
  shows "write_report dumps save rep kw out =
     (case dumps rep (effective_indent kw) of
        Inr txt \<Rightarrow> (Inr 0, out @ [txt])
      | Inl exc \<Rightarrow> (if must_raise kw then Inl exc else Inr 1,
                     out @ [''exception saving report: '' @ str_of_error exc]))"
proof -
  from assms have "effective_output kw = None" by (simp add: effective_output_None)
  then show ?thesis
    by (simp add: write_report_def Let_def emit_report_stdout split: sum.splits)
qed

lemma write_report_to_file:
  assumes "output' kw = Some p" and "p \<noteq> []"
  shows "write_report dumps save rep kw out =
     (case save p rep (effective_indent kw) of
        Inr u \<Rightarrow> (Inr 0, out @ [''report saved to file: '' @ p])
      | Inl exc \<Rightarrow> (if must_raise kw then Inl exc else Inr 1,
                     out @ [''exception saving report: '' @ str_of_error exc]))"
proof -
  from assms have "effective_output kw = Some p" by (simp add: effective_output_Some)
  then show ?thesis
    by (simp add: write_report_def Let_def emit_report_file split: sum.splits)
qed

lemma must_raise_iff: "must_raise kw \<longleftrightarrow> raise_exceptions kw \<noteq> Some False"
  by (simp add: must_raise_def split: option.splits)

text \<open>
  Claim C10. Here \<open>dumps\<close> is \<^verbatim>\<open>json.dumps\<close> and \<open>save\<close> is the writing of the file;
  \<open>ind\<close> is the indentation passed to them, 4 unless the caller gives one. The report
  goes to standard output when no output path or an empty one is given, and to the file
  otherwise.
  \<^item> When serialising and printing succeeds, \<open>write_report\<close> prints the text and returns 0;
    when saving succeeds it prints the line \<^verbatim>\<open>report saved to file: \<close> with the path and
    returns 0.
  \<^item> When the serialiser or the saving raises, \<open>write_report\<close> prints the line
    \<^verbatim>\<open>exception saving report: \<close> followed by the exception, and then raises that same
    exception, unless \<^verbatim>\<open>raise_exceptions\<close> was passed as false, in which case it returns 1.
  \<^item> So it returns 0 exactly when the serialiser, or the saving, succeeded: a failure is
    never dropped.
\<close>

theorem write_report_outcome:
  assumes "ind = (case indent kw of None \<Rightarrow> 4 | Some i \<Rightarrow> i)"
  shows "((output' kw = None \<or> output' kw = Some []) \<and> dumps rep ind = Inr js
            \<longrightarrow> write_report dumps save rep kw out = (Inr 0, out @ [js]))
       \<and> ((output' kw = None \<or> output' kw = Some []) \<and> dumps rep ind = Inl exc
            \<longrightarrow> write_report dumps save rep kw out =
                  (if raise_exceptions kw = Some False then Inr 1 else Inl exc,
                   out @ [''exception saving report: '' @ str_of_error exc]))
       \<and> (output' kw = Some p \<and> p \<noteq> [] \<and> save p rep ind = Inr u
            \<longrightarrow> write_report dumps save rep kw out =
                  (Inr 0, out @ [''report saved to file: '' @ p]))
       \<and> (output' kw = Some p \<and> p \<noteq> [] \<and> save p rep ind = Inl exc
            \<longrightarrow> write_report dumps save rep kw out =
                  (if raise_exceptions kw = Some False then Inr 1 else Inl exc,
                   out @ [''exception saving report: '' @ str_of_error exc]))
       \<and> (fst (write_report dumps save rep kw out) = Inr 0 \<longleftrightarrow>
            ((output' kw = None \<or> output' kw = Some []) \<and> (\<exists>js. dumps rep ind = Inr js))
            \<or> (\<exists>p. output' kw = Some p \<and> p \<noteq> [] \<and> (\<exists>u. save p rep ind = Inr u)))"
proof -
  have ind: "effective_indent kw = ind"
    using assms by (simp add: effective_indent_def)
  have 1: "write_report dumps save rep kw out = (Inr 0, out @ [js])"
    if "output' kw = None \<or> output' kw = Some []" and "dumps rep ind = Inr js"
    using that by (simp add: write_report_to_stdout ind)
  have 2: "write_report dumps save rep kw out =
      (if raise_exceptions kw = Some False then Inr 1 else Inl exc,
       out @ [''exception saving report: '' @ str_of_error exc])"
    if "output' kw = None \<or> output' kw = Some []" and "dumps rep ind = Inl exc"
    using that by (simp add: write_report_to_stdout ind must_raise_iff)
  have 3: "write_report dumps save rep kw out = (Inr 0, out @ [''report saved to file: '' @ p])"
    if "output' kw = Some p" and "p \<noteq> []" and "save p rep ind = Inr u"
    using that by (simp add: write_report_to_file ind)
  have 4: "write_report dumps save rep kw out =
      (if raise_exceptions kw = Some False then Inr 1 else Inl exc,
       out @ [''exception saving report: '' @ str_of_error exc])"
    if "output' kw = Some p" and "p \<noteq> []" and "save p rep ind = Inl exc"
    using that by (simp add: write_report_to_file ind must_raise_iff)
  have 5: "fst (write_report dumps save rep kw out) = Inr 0 \<longleftrightarrow>
      ((output' kw = None \<or> output' kw = Some []) \<and> (\<exists>js. dumps rep ind = Inr js))
      \<or> (\<exists>p. output' kw = Some p \<and> p \<noteq> [] \<and> (\<exists>u. save p rep ind = Inr u))"
  proof (cases "output' kw = None \<or> output' kw = Some []")
    case True
    then have "\<not> (\<exists>p. output' kw = Some p \<and> p \<noteq> [])" by auto
    with True show ?thesis
      by (cases "dumps rep ind") (auto simp: write_report_to_stdout ind)
  next
    case False
    then obtain q where q: "output' kw = Some q" "q \<noteq> []" by (cases "output' kw") auto
    with False show ?thesis
      by (cases "save q rep ind") (auto simp: write_report_to_file ind)
  qed
  from 1 2 3 4 5 show ?thesis by blast
qed

theorem write_report_outcome_witness:
  "write_report dumps_empty save_denied []
      \<lparr>raise_exceptions = Some False, output' = Some ''/out/report.json'', indent = None\<rparr> []
     = (Inr 1, [''exception saving report: [Errno 13] Permission denied''])
   \<and> write_report dumps_empty save_denied []
      \<lparr>raise_exceptions = None, output' = Some ''/out/report.json'', indent = None\<rparr> []
     = (Inl (OSError ''[Errno 13] Permission denied''),
        [''exception saving report: [Errno 13] Permission denied''])
   \<and> write_report dumps_failing save_denied []
      \<lparr>raise_exceptions = None, output' = None, indent = Some 2\<rparr> []
     = (Inl (TypeError ''Object of type set is not JSON serializable''),
        [''exception saving report: Object of type set is not JSON serializable''])
   \<and> write_report dumps_empty save_denied []
      \<lparr>raise_exceptions = None, output' = Some '''', indent = None\<rparr> []
     = (Inr 0, [''{}''])"
proof -
  let ?kw1 = "\<lparr>raise_exceptions = Some False, output' = Some ''/out/report.json'', indent = None\<rparr>"
  let ?kw2 = "\<lparr>raise_exceptions = None, output' = Some ''/out/report.json'', indent = None\<rparr>"
  let ?kw3 = "\<lparr>raise_exceptions = None, output' = None, indent = Some 2\<rparr>"
  let ?kw4 = "\<lparr>raise_exceptions = None, output' = Some '''', indent = None\<rparr>"
  let ?e = "OSError ''[Errno 13] Permission denied''"
  let ?f = "TypeError ''Object of type set is not JSON serializable''"
  have s: "save_denied ''/out/report.json'' [] 4 = Inl ?e"
    by (simp add: save_denied_def)
  have d3: "dumps_failing [] 2 = Inl ?f"
    by (simp add: dumps_failing_def)
  have d4: "dumps_empty [] 4 = Inr ''{}''"
    by (simp add: dumps_empty_def)
  have "write_report dumps_empty save_denied [] ?kw1 []
      = (Inr 1, [''exception saving report: [Errno 13] Permission denied''])"
    using write_report_outcome [where dumps = dumps_empty and save = save_denied and rep = "[]"
        and kw = ?kw1 and out = "[]" and exc = ?e and p = "''/out/report.json''" and ind = 4] s
    by simp
  moreover have "write_report dumps_empty save_denied [] ?kw2 []
      = (Inl ?e, [''exception saving report: [Errno 13] Permission denied''])"
    using write_report_outcome [where dumps = dumps_empty and save = save_denied and rep = "[]"
        and kw = ?kw2 and out = "[]" and exc = ?e and p = "''/out/report.json''" and ind = 4] s
    by simp
  moreover have "write_report dumps_failing save_denied [] ?kw3 []
      = (Inl ?f, [''exception saving report: Object of type set is not JSON serializable''])"
    using write_report_outcome [where dumps = dumps_failing and save = save_denied and rep = "[]"
        and kw = ?kw3 and out = "[]" and exc = ?f and ind = 2] d3
    by simp
  moreover have "write_report dumps_empty save_denied [] ?kw4 [] = (Inr 0, [''{}''])"
    using write_report_outcome [where dumps = dumps_empty and save = save_denied and rep = "[]"
        and kw = ?kw4 and out = "[]" and js = "''{}''" and ind = 4] d4
    by simp
  ultimately show ?thesis by simp
qed

subsection \<open>The pipeline report\<close>

lemma parse_dates_ok:
  "list_all (parses strptime) ds \<Longrightarrow> parse_dates strptime ds = Inr (map (instant strptime) ds)"
  by (induction ds) (auto simp: parses_def instant_def split: sum.splits)

lemma extract_latest_ok:
  assumes "commits \<noteq> []" and "list_all (\<lambda>c. parses strptime (date c)) commits"
  shows "extract_latest_date_from_commits strptime commits = Inr (most_recent strptime commits)"
proof -
  from assms(1) obtain c cs where commits: "commits = c # cs" by (cases commits) auto
  have "list_all (parses strptime) (map date commits)"
    using assms(2) by (simp add: list_all_iff)
  then have "parse_dates strptime (map date commits) = Inr (map (instant strptime) (map date commits))"
    by (rule parse_dates_ok)
  moreover have "fold max (map (\<lambda>c. instant strptime (date c)) cs) (instant strptime (date c))
      = Max (set (map (\<lambda>c. instant strptime (date c)) (c # cs)))"
    by (simp only: Max.set_eq_fold list.map)
  ultimately show ?thesis
    by (simp add: extract_latest_date_from_commits_def most_recent_def commits comp_def)
qed

lemma sub_lines_append:
  "sub_lines strptime clk t (xs @ ys) =
     sub_lines strptime clk t xs @ sub_lines strptime clk (t + length xs) ys"
  by (induction xs arbitrary: t) auto

lemma author_loop_ok:
  assumes "list_all (\<lambda>ac. snd ac \<noteq> [] \<and> list_all (\<lambda>c. parses strptime (date c)) (snd ac)) cba"
  shows "author_loop strptime clk b cba message_lines t =
           (Inr (message_lines @ sub_lines strptime clk t (map (\<lambda>ac. (b, fst ac, snd ac)) cba)),
            t + length cba)"
  using assms
proof (induction cba arbitrary: message_lines t)
  case Nil
  then show ?case by simp
next
  case (Cons ac cba)
  obtain a commits where ac: "ac = (a, commits)" by (cases ac)
  have "extract_latest_date_from_commits strptime commits = Inr (most_recent strptime commits)"
    using Cons.prems ac by (simp add: extract_latest_ok)
  moreover have "list_all (\<lambda>ac. snd ac \<noteq> [] \<and> list_all (\<lambda>c. parses strptime (date c)) (snd ac)) cba"
    using Cons.prems by simp
  ultimately show ?case
    using ac by (simp add: Cons.IH get_datetime_now_with_tz_def branch_line_def)
qed

lemma triples_Cons:
  "triples (bc # rep) = map (\<lambda>ac. (fst bc, fst ac, snd ac)) (snd bc) @ triples rep"
  by (simp add: triples_def)

lemma branch_loop_ok:
  assumes "dated strptime rep"
  shows "branch_loop strptime clk rep message_lines t =
           (Inr (message_lines @ sub_lines strptime clk t (triples rep)), t + length (triples rep))"
  using assms
proof (induction rep arbitrary: message_lines t)
  case Nil
  then show ?case by (simp add: triples_def)
next
  case (Cons bc rep)
  obtain b cba where bc: "bc = (b, cba)" by (cases bc)
  have here: "list_all (\<lambda>ac. snd ac \<noteq> [] \<and> list_all (\<lambda>c. parses strptime (date c)) (snd ac)) cba"
    using Cons.prems bc by (force simp: dated_def triples_Cons list_all_iff)
  have rest: "dated strptime rep"
    using Cons.prems by (simp add: dated_def triples_Cons)
  show ?case
    using bc by (simp add: author_loop_ok [OF here] Cons.IH [OF rest] triples_Cons sub_lines_append)
qed

lemma pipeline_loop_ok:
  assumes "list_all (\<lambda>r. dated strptime (report r)) rs"
  shows "fst (pipeline_loop strptime clk rs sc message_lines t) =
           Inr (foldl (\<lambda>sc r. AList.update (scan_id r) (report r) sc) sc
                  (filter (\<lambda>r. report r \<noteq> []) rs),
                message_lines @ digest_lines strptime clk t rs)"
  using assms
proof (induction rs arbitrary: sc message_lines t)
  case Nil
  then show ?case by simp
next
  case (Cons r rs)
  have here: "dated strptime (report r)" and rest: "list_all (\<lambda>r. dated strptime (report r)) rs"
    using Cons.prems by simp_all
  show ?case
    by (simp add: Cons.IH [OF rest] branch_loop_ok [OF here] Let_def fresh_line_def
        stale_line_def scan_id_def)
qed

lemma sorted_results_dated:
  "list_all (\<lambda>r. dated strptime (report r)) rs \<Longrightarrow>
     list_all (\<lambda>r. dated strptime (report r)) (sorted_results rs)"
  by (simp add: sorted_results_def list_all_iff)

lemma create_pipeline_report_ok:
  assumes "list_all (\<lambda>r. dated strptime (report r)) rs"
  shows "fst (create_pipeline_report strptime clk rs t) =
           Inr \<lparr>scans = foldl (\<lambda>sc r. AList.update (scan_id r) (report r) sc) []
                          (filter (\<lambda>r. report r \<noteq> []) (sorted_results rs)),
                message = join [CHR 0x0A] (digest_lines strptime clk t (sorted_results rs))\<rparr>"
proof -
  from pipeline_loop_ok [OF sorted_results_dated [OF assms], of clk "[]" "[]" t]
  show ?thesis
    by (cases "pipeline_loop strptime clk (sorted_results rs) [] [] t")
      (auto simp: create_pipeline_report_def)
qed

lemma set_update_subset: "set (AList.update k v al) \<subseteq> insert (k, v) (set al)"
  by (induction al) auto

lemma scans_keys:
  "fst ` set (foldl (\<lambda>sc r. AList.update (scan_id r) (report r) sc) sc xs) =
     fst ` set sc \<union> scan_id ` set xs"
  by (induction xs arbitrary: sc) (auto simp: AList.dom_update)

lemma scans_distinct:
  "distinct (map fst sc) \<Longrightarrow>
     distinct (map fst (foldl (\<lambda>sc r. AList.update (scan_id r) (report r) sc) sc xs))"
  by (induction xs arbitrary: sc) (simp_all add: AList.distinct_update)

lemma scans_entries:
  "kv \<in> set (foldl (\<lambda>sc r. AList.update (scan_id r) (report r) sc) sc xs) \<Longrightarrow>
     kv \<in> set sc \<or> (\<exists>r\<in>set xs. kv = (scan_id r, report r))"
proof (induction xs arbitrary: sc)
  case Nil
  then show ?case by simp
next
  case (Cons x xs)
  from Cons.IH [of "AList.update (scan_id x) (report x) sc"] Cons.prems
  have "kv \<in> set (AList.update (scan_id x) (report x) sc) \<or> (\<exists>r\<in>set xs. kv = (scan_id r, report r))"
    by simp
  with set_update_subset [of "scan_id x" "report x" sc] show ?case by auto
qed

lemma fresh_line_in_digest:
  "r \<in> set rs \<Longrightarrow> report r = [] \<Longrightarrow> fresh_line r \<in> set (digest_lines strptime clk t rs)"
  by (induction rs arbitrary: t) (auto simp: fresh_line_def scan_id_def)

text \<open>
  Claim C5, as amended. For scan results whose reports have a latest commit in every
  group (every timestamp parses and no group of commits is empty; otherwise the builder
  raises), \<open>create_pipeline_report\<close> returns a digest in which: the keys of \<open>scans\<close> are
  exactly the keys of the results with a non-empty report, the key of a result being
  \<^verbatim>\<open><repoName>:branch\<close> with the base name of the repository in angle brackets; every
  entry of \<open>scans\<close> is such a key with the full, non-empty report of a result that has it,
  so a result with an empty report is never an entry; and the message has the line
  \<^verbatim>\<open> - <repoName>:branch *fresh*\<close> for every result with an empty report.
\<close>

theorem pipeline_scans_hold_the_stale_results:
  assumes "list_all (\<lambda>r. dated strptime (report r)) rs"
  shows "\<exists>sc message_lines.
           fst (create_pipeline_report strptime clk rs t) =
             Inr \<lparr>scans = sc, message = join [CHR 0x0A] message_lines\<rparr>
           \<and> distinct (map fst sc)
           \<and> fst ` set sc = scan_id ` {r \<in> set rs. report r \<noteq> []}
           \<and> (\<forall>kv\<in>set sc. snd kv \<noteq> []
                  \<and> (\<exists>r\<in>set rs. fst kv = scan_id r \<and> snd kv = report r))
           \<and> (\<forall>r\<in>set rs. report r = [] \<longrightarrow> fresh_line r \<in> set message_lines)"
proof -
  let ?xs = "filter (\<lambda>r. report r \<noteq> []) (sorted_results rs)"
  let ?sc = "foldl (\<lambda>sc r. AList.update (scan_id r) (report r) sc) [] ?xs"
  let ?lines = "digest_lines strptime clk t (sorted_results rs)"
  have same: "set (sorted_results rs) = set rs"
    by (simp add: sorted_results_def)
  have 1: "fst (create_pipeline_report strptime clk rs t) =
             Inr \<lparr>scans = ?sc, message = join [CHR 0x0A] ?lines\<rparr>"
    using assms by (rule create_pipeline_report_ok)
  have 2: "distinct (map fst ?sc)"
    by (rule scans_distinct) simp
  have 3: "fst ` set ?sc = scan_id ` {r \<in> set rs. report r \<noteq> []}"
    using same by (auto simp: scans_keys)
  have 4: "\<forall>kv\<in>set ?sc. snd kv \<noteq> [] \<and> (\<exists>r\<in>set rs. fst kv = scan_id r \<and> snd kv = report r)"
  proof
    fix kv assume "kv \<in> set ?sc"
    from scans_entries [OF this] obtain r where "r \<in> set ?xs" and "kv = (scan_id r, report r)"
      by auto
    then show "snd kv \<noteq> [] \<and> (\<exists>r\<in>set rs. fst kv = scan_id r \<and> snd kv = report r)"
      using same by auto
  qed
  have 5: "\<forall>r\<in>set rs. report r = [] \<longrightarrow> fresh_line r \<in> set ?lines"
    using same by (auto intro: fresh_line_in_digest)
  from 1 2 3 4 5 show ?thesis by blast
qed

text \<open>
  An instance. At 2020-02-10 the results are one for the repository \<^verbatim>\<open>/w/zeta\<close> with an
  empty report and one for \<^verbatim>\<open>/w/alpha\<close> whose branch \<^verbatim>\<open>origin/x\<close> has commits of one
  author made 3 and 10 days before. The second comes first in the digest, and its
  sub-line says 3 days.
\<close>

lemma sample_pipeline_report:
  "fst (create_pipeline_report strptime_iso (ticking 1581292800000000)
          [scan_of ''/w/zeta'' ''main'' [],
           scan_of ''/w/alpha'' ''main''
             [(''origin/x'', [(''a@x.com'', [cdict ''bbbb2222'' ''2020-02-07T00:00:00+00:00'',
                                             cdict ''aaaa1111'' ''2020-01-31T00:00:00+00:00''])])]] 0)
     = Inr \<lparr>scans =
              [(''<alpha>:main'',
                [(''origin/x'', [(''a@x.com'', [cdict ''bbbb2222'' ''2020-02-07T00:00:00+00:00'',
                                                cdict ''aaaa1111'' ''2020-01-31T00:00:00+00:00''])])])],
            message = '' - <alpha>:main'' @ [CHR 0x0A] @ ''    * origin/x (3 days)'' @ [CHR 0x0A]
                        @ '' - <zeta>:main *fresh*''\<rparr>"
  by code_simp

theorem pipeline_scans_hold_the_stale_results_witness:
  "\<exists>sc message_lines.
     fst (create_pipeline_report strptime_iso (ticking 1581292800000000)
          [scan_of ''/w/zeta'' ''main'' [],
           scan_of ''/w/alpha'' ''main''
             [(''origin/x'', [(''a@x.com'', [cdict ''bbbb2222'' ''2020-02-07T00:00:00+00:00'',
                                             cdict ''aaaa1111'' ''2020-01-31T00:00:00+00:00''])])]] 0)
       = Inr \<lparr>scans = sc, message = join [CHR 0x0A] message_lines\<rparr>
     \<and> fst ` set sc = {''<alpha>:main''}
     \<and> '' - <zeta>:main *fresh*'' \<in> set message_lines"
proof -
  let ?rep = "[(''origin/x'', [(''a@x.com'', [cdict ''bbbb2222'' ''2020-02-07T00:00:00+00:00'',
                                             cdict ''aaaa1111'' ''2020-01-31T00:00:00+00:00''])])]"
  let ?z = "scan_of ''/w/zeta'' ''main'' []"
  let ?rs = "[?z, scan_of ''/w/alpha'' ''main'' ?rep]"
  have d: "list_all (\<lambda>r. dated strptime_iso (report r)) ?rs"
    by code_simp
  have k: "scan_id ` {r \<in> set ?rs. report r \<noteq> []} = {''<alpha>:main''}"
  proof -
    have "{r \<in> set ?rs. report r \<noteq> []} = {scan_of ''/w/alpha'' ''main'' ?rep}"
      by (auto simp: scan_of_def)
    moreover have "scan_id (scan_of ''/w/alpha'' ''main'' ?rep) = ''<alpha>:main''"
      by code_simp
    ultimately show ?thesis by simp
  qed
  have f: "fresh_line ?z = '' - <zeta>:main *fresh*''"
    by code_simp
  have z1: "?z \<in> set ?rs" by simp
  have z2: "report ?z = []" by (simp add: scan_of_def)
  from pipeline_scans_hold_the_stale_results
    [where strptime = strptime_iso and rs = ?rs and clk = "ticking 1581292800000000" and t = 0, OF d]
  obtain sc message_lines where
    all: "fst (create_pipeline_report strptime_iso (ticking 1581292800000000) ?rs 0)
         = Inr \<lparr>scans = sc, message = join [CHR 0x0A] message_lines\<rparr>
       \<and> distinct (map fst sc)
       \<and> fst ` set sc = scan_id ` {r \<in> set ?rs. report r \<noteq> []}
       \<and> (\<forall>kv\<in>set sc. snd kv \<noteq> []
              \<and> (\<exists>r\<in>set ?rs. fst kv = scan_id r \<and> snd kv = report r))
       \<and> (\<forall>r\<in>set ?rs. report r = [] \<longrightarrow> fresh_line r \<in> set message_lines)"
    by (elim exE)
  have a: "fst (create_pipeline_report strptime_iso (ticking 1581292800000000) ?rs 0)
         = Inr \<lparr>scans = sc, message = join [CHR 0x0A] message_lines\<rparr>"
    using all by (rule conjunct1)
  have b: "fst ` set sc = {''<alpha>:main''}"
    using all [THEN conjunct2, THEN conjunct2, THEN conjunct1] unfolding k .
  have "fresh_line ?z \<in> set message_lines"
    using all [THEN conjunct2, THEN conjunct2, THEN conjunct2, THEN conjunct2, THEN bspec, OF z1,
        THEN mp, OF z2] .
  then have c: "'' - <zeta>:main *fresh*'' \<in> set message_lines"
    unfolding f .
  show ?thesis
    by (rule exI [of _ sc], rule exI [of _ message_lines]) (intro conjI a b c)
qed

text \<open>
  The claim as stated has the key \<^verbatim>\<open>repoName:branch\<close>. The key the code builds has
  the base name of the repository in angle brackets, so nothing is stored under the key
  of the claim.
\<close>

theorem pipeline_scans_key_counterexample:
  "fst (create_pipeline_report strptime_iso (ticking 1581292800000000)
          [scan_of ''/w/alpha'' ''main''
             [(''origin/x'', [(''a@x.com'', [cdict ''aaaa1111'' ''2020-01-31T00:00:00+00:00''])])]] 0)
     = Inr \<lparr>scans =
              [(''<alpha>:main'',
                [(''origin/x'', [(''a@x.com'', [cdict ''aaaa1111'' ''2020-01-31T00:00:00+00:00''])])])],
            message = '' - <alpha>:main'' @ [CHR 0x0A] @ ''    * origin/x (10 days)''\<rparr>
   \<and> composite_key (scan_of ''/w/alpha'' ''main''
             [(''origin/x'', [(''a@x.com'', [cdict ''aaaa1111'' ''2020-01-31T00:00:00+00:00''])])])
     = ''alpha:main''
   \<and> map_of [(''<alpha>:main'',
                [(''origin/x'', [(''a@x.com'', [cdict ''aaaa1111'' ''2020-01-31T00:00:00+00:00''])])])]
        ''alpha:main'' = None"
  by code_simp

text \<open>
  Claim C6. \<open>create_pipeline_report\<close> takes the scan results in ascending order of
  the pair of the repository's base name and the branch: the order it works in is
  sorted by that key, is a rearrangement of the results, and keeps results with equal
  keys in their given order. For reports that have a latest commit in every group, the
  message is the lines of \<open>digest_lines\<close> for the results in that order, joined by
  newlines. \<open>digest_lines\<close> is written from the claim and spells every line out: for
  every (branch, author, commits) triple of a result with a non-empty report there is
  exactly one sub-line, \<^verbatim>\<open>    * branch (N days)\<close>, which names the branch of the triple
  and gives as \<open>N\<close> the whole days from the instant of the most recent commit of the triple
  (the maximum of its timestamps) to the clock reading taken for that triple.
\<close>

theorem pipeline_message_in_sorted_order:
  assumes "list_all (\<lambda>r. dated strptime (report r)) rs"
  shows "(\<exists>sc. fst (create_pipeline_report strptime clk rs t) =
             Inr \<lparr>scans = sc,
                  message = join [CHR 0x0A] (digest_lines strptime clk t (sorted_results rs))\<rparr>)
         \<and> sorted (map (\<lambda>r. (basename (repo_dir r), branch r)) (sorted_results rs))
         \<and> mset (sorted_results rs) = mset rs
         \<and> filter (\<lambda>r. (basename (repo_dir r), branch r) = k) (sorted_results rs)
             = filter (\<lambda>r. (basename (repo_dir r), branch r) = k) rs"
  using create_pipeline_report_ok [OF assms, of clk t]
  by (simp add: sorted_results_def sort_key_stable)

text \<open>
  An instance with two branches: under \<^verbatim>\<open>origin/x\<close> one author has commits made 3 and 10
  days before the clock's first reading, under \<^verbatim>\<open>origin/y\<close> another author has a commit
  made 10 days before. Each sub-line names its own branch, and the first says 3 days.
\<close>

theorem pipeline_message_in_sorted_order_witness:
  "\<exists>sc. fst (create_pipeline_report strptime_iso (ticking 1581292800000000)
          [scan_of ''/w/zeta'' ''main'' [],
           scan_of ''/w/alpha'' ''main''
             [(''origin/x'', [(''a@x.com'', [cdict ''bbbb2222'' ''2020-02-07T00:00:00+00:00'',
                                             cdict ''aaaa1111'' ''2020-01-31T00:00:00+00:00''])]),
              (''origin/y'', [(''b@x.com'', [cdict ''cccc3333'' ''2020-01-31T00:00:00+00:00''])])]] 0)
     = Inr \<lparr>scans = sc,
            message = '' - <alpha>:main'' @ [CHR 0x0A] @ ''    * origin/x (3 days)'' @ [CHR 0x0A]
                        @ ''    * origin/y (10 days)'' @ [CHR 0x0A]
                        @ '' - <zeta>:main *fresh*''\<rparr>"
proof -
  let ?rep = "[(''origin/x'', [(''a@x.com'', [cdict ''bbbb2222'' ''2020-02-07T00:00:00+00:00'',
                                             cdict ''aaaa1111'' ''2020-01-31T00:00:00+00:00''])]),
               (''origin/y'', [(''b@x.com'', [cdict ''cccc3333'' ''2020-01-31T00:00:00+00:00''])])]"
  let ?rs = "[scan_of ''/w/zeta'' ''main'' [], scan_of ''/w/alpha'' ''main'' ?rep]"
  have d: "list_all (\<lambda>r. dated strptime_iso (report r)) ?rs"
    by code_simp
  have m: "join [CHR 0x0A] (digest_lines strptime_iso (ticking 1581292800000000) 0 (sorted_results ?rs))
      = '' - <alpha>:main'' @ [CHR 0x0A] @ ''    * origin/x (3 days)'' @ [CHR 0x0A]
          @ ''    * origin/y (10 days)'' @ [CHR 0x0A] @ '' - <zeta>:main *fresh*''"
    by code_simp
  have "\<exists>sc. fst (create_pipeline_report strptime_iso (ticking 1581292800000000) ?rs 0) =
             Inr \<lparr>scans = sc,
                  message = join [CHR 0x0A]
                    (digest_lines strptime_iso (ticking 1581292800000000) 0 (sorted_results ?rs))\<rparr>"
    using pipeline_message_in_sorted_order
      [where strptime = strptime_iso and rs = ?rs and clk = "ticking 1581292800000000" and t = 0
         and k = "(''alpha'', ''main'')", OF d]
    by (rule conjunct1)
  then show ?thesis unfolding m .
qed

subsection \<open>Reports made by a scan have a latest commit in every group\<close>

text \<open>
  The two theorems on the pipeline report assume reports in which every timestamp parses
  and no group of commits is empty. Every report that \<^verbatim>\<open>scan\<close> builds is such a
  report: the staleness filter keeps a branch only when all its timestamps parse, and
  grouping by author makes no empty group.
\<close>

lemma all_older_True_parses:
  "all_older strptime clk ds n t = (Inr True, t') \<Longrightarrow> list_all (parses strptime) ds"
proof (induction ds arbitrary: t)
  case Nil
  then show ?case by simp
next
  case (Cons d ds)
  obtain res t1 where step: "date_is_older_than_n_days strptime clk d n False t = (res, t1)"
    by (cases "date_is_older_than_n_days strptime clk d n False t")
  with Cons.prems have res: "res = Inr True" and rest: "all_older strptime clk ds n t1 = (Inr True, t')"
    by (auto split: sum.splits bool.splits)
  from step res have "parses strptime d"
    by (auto simp: date_is_older_than_n_days_def parses_def split: sum.splits)
  with Cons.IH [OF rest] show ?case by simp
qed

lemma extract_stale_loop_parses:
  assumes "fst (extract_stale_loop strptime clk d n acc t) = Inr st"
    and "\<forall>bc\<in>set acc. list_all (\<lambda>c. parses strptime (date c)) (snd bc)"
  shows "\<forall>bc\<in>set st. list_all (\<lambda>c. parses strptime (date c)) (snd bc)"
  using assms
proof (induction d arbitrary: acc t)
  case Nil
  then show ?case by simp
next
  case (Cons bc d)
  obtain b commits where bc: "bc = (b, commits)" by (cases bc)
  obtain res t1 where ao: "all_older strptime clk (map date commits) n t = (res, t1)"
    by (cases "all_older strptime clk (map date commits) n t")
  show ?case
  proof (cases res)
    case (Inl e)
    with Cons.prems(1) bc ao show ?thesis by simp
  next
    case (Inr ok)
    show ?thesis
    proof (cases ok)
      case False
      with Cons.prems bc ao Inr Cons.IH [of acc t1] show ?thesis by simp
    next
      case True
      have "list_all (parses strptime) (map date commits)"
        using ao Inr True by (auto intro: all_older_True_parses)
      then have here: "list_all (\<lambda>c. parses strptime (date c)) commits"
        by (simp add: list_all_iff)
      have "\<forall>bc\<in>set (AList.update b commits acc). list_all (\<lambda>c. parses strptime (date c)) (snd bc)"
        using set_update_subset [of b commits acc] here Cons.prems(2) by auto
      with Cons.prems(1) bc ao Inr True Cons.IH [of "AList.update b commits acc" t1]
      show ?thesis by simp
    qed
  qed
qed

lemma get_or_empty_cases:
  "get_or_empty d k = [] \<or> (k, get_or_empty d k) \<in> set d"
  by (auto simp: get_or_empty_def split: option.splits dest: map_of_SomeD)

lemma append_for_author_groups:
  assumes "\<forall>ac\<in>set acc. snd ac \<noteq> [] \<and> list_all (\<lambda>c. Q (date c)) (snd ac)"
    and "Q (date commit)"
  shows "\<forall>ac\<in>set (append_for_author acc commit).
           snd ac \<noteq> [] \<and> list_all (\<lambda>c. Q (date c)) (snd ac)"
proof -
  let ?a = "author commit"
  let ?cd = "\<lparr>hash = hash commit, date = date commit, subject = subject commit\<rparr>"
  let ?v = "get_or_empty acc ?a @ [?cd]"
  have "list_all (\<lambda>c. Q (date c)) (get_or_empty acc ?a)"
    using get_or_empty_cases [of acc ?a] assms(1) by auto
  then have "?v \<noteq> [] \<and> list_all (\<lambda>c. Q (date c)) ?v"
    using assms(2) by simp
  moreover have "set (append_for_author acc commit) \<subseteq> insert (?a, ?v) (set acc)"
    by (simp add: append_for_author_def convert_commit_to_dict_def set_update_subset)
  ultimately show ?thesis using assms(1) by auto
qed

lemma convert_groups:
  assumes "list_all (\<lambda>c. Q (date c)) commits"
    and "\<forall>ac\<in>set acc. snd ac \<noteq> [] \<and> list_all (\<lambda>c. Q (date c)) (snd ac)"
  shows "\<forall>ac\<in>set (foldl append_for_author acc commits).
           snd ac \<noteq> [] \<and> list_all (\<lambda>c. Q (date c)) (snd ac)"
  using assms
proof (induction commits arbitrary: acc)
  case Nil
  then show ?case by simp
next
  case (Cons c commits)
  have "\<forall>ac\<in>set (append_for_author acc c). snd ac \<noteq> [] \<and> list_all (\<lambda>c. Q (date c)) (snd ac)"
    using Cons.prems by (intro append_for_author_groups) simp_all
  with Cons.IH [of "append_for_author acc c"] Cons.prems(1) show ?case by simp
qed

lemma create_report_groups:
  assumes "\<forall>bc\<in>set st. list_all (\<lambda>c. Q (date c)) (snd bc)"
    and "\<forall>bc\<in>set acc. \<forall>ac\<in>set (snd bc). snd ac \<noteq> [] \<and> list_all (\<lambda>c. Q (date c)) (snd ac)"
  shows "\<forall>bc\<in>set (foldl (\<lambda>report_by_branch (b, commits).
              AList.update b (convert_commits_list_to_dict_by_author commits) report_by_branch)
            acc st).
           \<forall>ac\<in>set (snd bc). snd ac \<noteq> [] \<and> list_all (\<lambda>c. Q (date c)) (snd ac)"
  using assms
proof (induction st arbitrary: acc)
  case Nil
  then show ?case by simp
next
  case (Cons x st)
  obtain b commits where x: "x = (b, commits)" by (cases x)
  let ?v = "convert_commits_list_to_dict_by_author commits"
  have "list_all (\<lambda>c. Q (date c)) commits" using Cons.prems(1) x by simp
  then have "\<forall>ac\<in>set ?v. snd ac \<noteq> [] \<and> list_all (\<lambda>c. Q (date c)) (snd ac)"
    unfolding convert_commits_list_to_dict_by_author_def by (intro convert_groups) simp_all
  then have v: "\<forall>ac\<in>set ?v. snd ac \<noteq> [] \<and> list_all (\<lambda>c. Q (date c)) (snd ac)" .
  have "\<forall>bc\<in>set (AList.update b ?v acc).
      \<forall>ac\<in>set (snd bc). snd ac \<noteq> [] \<and> list_all (\<lambda>c. Q (date c)) (snd ac)"
  proof
    fix bc assume "bc \<in> set (AList.update b ?v acc)"
    with set_update_subset [of b ?v acc] have "bc = (b, ?v) \<or> bc \<in> set acc" by auto
    then show "\<forall>ac\<in>set (snd bc). snd ac \<noteq> [] \<and> list_all (\<lambda>c. Q (date c)) (snd ac)"
    proof
      assume "bc = (b, ?v)"
      with v show ?thesis by simp
    next
      assume "bc \<in> set acc"
      with Cons.prems(2) show ?thesis by blast
    qed
  qed
  with Cons.IH [of "AList.update b ?v acc"] Cons.prems(1) x show ?case by simp
qed

lemma dated_iff:
  "dated strptime rep \<longleftrightarrow>
     (\<forall>bc\<in>set rep. \<forall>ac\<in>set (snd bc).
        snd ac \<noteq> [] \<and> list_all (\<lambda>c. parses strptime (date c)) (snd ac))"
  by (auto simp: dated_def triples_def list_all_iff)

lemma scan_report_is_dated:
  assumes "fst (extract_stale_branches strptime clk d n t) = Inr st"
  shows "dated strptime (create_report_by_branch st)"
proof -
  have "\<forall>bc\<in>set st. list_all (\<lambda>c. parses strptime (date c)) (snd bc)"
    using assms unfolding extract_stale_branches_def
    by (rule extract_stale_loop_parses) simp
  then show ?thesis
    unfolding dated_iff create_report_by_branch_def
    by (intro create_report_groups) simp_all
qed

end
